theory Spec2Isabelle
  imports Complex_Main "HOL-Library.Log_Nat"
begin

section \<open>Numbers and strings of the host language\<close>

text \<open>
  JavaScript numbers are modelled as real numbers. \<open>toFixed f x\<close> is the number denoted by
  the decimal string \<open>x.toFixed(f)\<close>: the nearest multiple of \<open>10^-f\<close>, ties away from zero.
  The ingestion and the transition system below compute with exact numbers; the ingestion
  loop is given a second time, and the statistics are given, over an arbitrary arithmetic,
  of which the doubles of the program are one.
\<close>

definition toFixed :: "nat \<Rightarrow> real \<Rightarrow> real" where
  "toFixed f x =
     (if x < 0 then - (of_int \<lfloor>(- x) * 10 ^ f + 1 / 2\<rfloor> / 10 ^ f)
      else of_int \<lfloor>x * 10 ^ f + 1 / 2\<rfloor> / 10 ^ f)"

subsection \<open>Double precision\<close>

text \<open>
  The numbers of the program are IEEE doubles. \<open>to_double x\<close> is the double nearest to the
  real number \<open>x\<close>, ties to the even significand: the exponent \<open>e\<close> of \<open>x\<close> is the one with
  \<open>2^e \<le> |x| < 2^(e+1)\<close>, but at least \<open>-1022\<close>, and \<open>x\<close> is rounded to a multiple of
  \<open>2^(e-52)\<close>. Infinities and \<open>NaN\<close> are not modelled: every number here is far below the
  largest double.
\<close>

definition round_even :: "real \<Rightarrow> int" where
  "round_even q =
     (let f = \<lfloor>q\<rfloor>; r = q - of_int f
      in if r < 1 / 2 then f else if 1 / 2 < r then f + 1 else if even f then f else f + 1)"

definition to_double :: "real \<Rightarrow> real" where
  "to_double x =
     (if x = 0 then 0
      else let e = max (bitlen \<lfloor>\<bar>x\<bar> * 2 ^ 1074\<rfloor> - 1075) (- 1022);
               u = 2 powi (e - 52)
           in sgn x * of_int (round_even (\<bar>x\<bar> / u)) * u)"

text \<open>
  The arithmetic a computation runs in: the four operations, and \<open>Number(s)\<close> for a decimal
  string \<open>s\<close>, given by the number it denotes. \<open>ieee\<close> is the arithmetic of the program: each
  operation returns the double nearest to the exact result. \<open>exact\<close> computes without
  rounding.
\<close>

record arithmetic =
  add_op :: "real \<Rightarrow> real \<Rightarrow> real"
  sub_op :: "real \<Rightarrow> real \<Rightarrow> real"
  mul_op :: "real \<Rightarrow> real \<Rightarrow> real"
  div_op :: "real \<Rightarrow> real \<Rightarrow> real"
  num_op :: "real \<Rightarrow> real"

definition ieee :: arithmetic where
  "ieee =
     \<lparr>add_op = (\<lambda>a b. to_double (a + b)),
      sub_op = (\<lambda>a b. to_double (a - b)),
      mul_op = (\<lambda>a b. to_double (a * b)),
      div_op = (\<lambda>a b. to_double (a / b)),
      num_op = to_double\<rparr>"

definition exact :: arithmetic where
  "exact = \<lparr>add_op = (+), sub_op = (-), mul_op = (*), div_op = (/), num_op = (\<lambda>x. x)\<rparr>"

text \<open>\<open>s.startsWith(p)\<close>.\<close>

fun startsWith :: "string \<Rightarrow> string \<Rightarrow> bool" where
  "startsWith s [] = True"
| "startsWith [] (p # ps) = False"
| "startsWith (c # cs) (p # ps) = (c = p \<and> startsWith cs ps)"

text \<open>\<open>s.split(sep)\<close> for a one-character separator; the empty string splits into one empty piece.\<close>

fun split_on :: "char \<Rightarrow> string \<Rightarrow> string list" where
  "split_on sep [] = [[]]"
| "split_on sep (c # cs) =
     (if c = sep then [] # split_on sep cs
      else (case split_on sep cs of [] \<Rightarrow> [[c]] | p # ps \<Rightarrow> (c # p) # ps))"

text \<open>Array indexing \<open>xs[i]\<close>; \<open>None\<close> is \<open>undefined\<close>.\<close>

fun index_opt :: "'a list \<Rightarrow> nat \<Rightarrow> 'a option" where
  "index_opt [] i = None"
| "index_opt (x # xs) 0 = Some x"
| "index_opt (x # xs) (Suc i) = index_opt xs i"

text \<open>Truthiness of a \<open>string | null\<close> value: \<open>null\<close> and the empty string are falsy.\<close>

fun truthy :: "string option \<Rightarrow> bool" where
  "truthy None = False"
| "truthy (Some s) = (s \<noteq> [])"

text \<open>Decimal rendering of a natural number, as in a template literal.\<close>

function string_of_nat :: "nat \<Rightarrow> string" where
  "string_of_nat n =
     (if n < 10 then [''0123456789'' ! n]
      else string_of_nat (n div 10) @ [''0123456789'' ! (n mod 10)])"
  by pat_completeness auto
termination
  by (relation "measure (\<lambda>n. n)") auto

declare string_of_nat.simps [simp del]

subsection \<open>\<open>atob\<close>: forgiving base64 decoding\<close>

text \<open>
  \<open>atob\<close> is the platform's decoder. It removes ASCII whitespace, removes one or two
  trailing \<open>=\<close> when the length is a multiple of four, fails when the remaining length is
  \<open>1\<close> modulo \<open>4\<close> or a character is outside the base64 alphabet, and otherwise turns each
  character into six bits and each full group of eight bits into one byte. A failure is the
  exception \<open>InvalidCharacterError\<close>, here \<open>None\<close>. The decoded binary string is the list
  of its byte values.
\<close>

definition is_ascii_whitespace :: "char \<Rightarrow> bool" where
  "is_ascii_whitespace c = (of_char c \<in> {9, 10, 12, 13, 32 :: nat})"

definition b64_value :: "char \<Rightarrow> nat option" where
  "b64_value c =
     (let n = (of_char c :: nat) in
      if 65 \<le> n \<and> n \<le> 90 then Some (n - 65)
      else if 97 \<le> n \<and> n \<le> 122 then Some (n - 71)
      else if 48 \<le> n \<and> n \<le> 57 then Some (n + 4)
      else if n = 43 then Some 62
      else if n = 47 then Some 63
      else None)"

definition strip_padding :: "string \<Rightarrow> string" where
  "strip_padding d =
     (if 2 \<le> length d \<and> last d = CHR ''='' \<and> last (butlast d) = CHR ''=''
      then butlast (butlast d)
      else if d \<noteq> [] \<and> last d = CHR ''='' then butlast d
      else d)"

fun b64_bytes :: "nat list \<Rightarrow> nat list" where
  "b64_bytes (a # b # c # d # rest) =
     (let n = ((a * 64 + b) * 64 + c) * 64 + d
      in (n div 65536) # (n div 256 mod 256) # (n mod 256) # b64_bytes rest)"
| "b64_bytes [a, b, c] =
     (let n = ((a * 64 + b) * 64 + c) div 4
      in [n div 256, n mod 256])"
| "b64_bytes [a, b] = [(a * 64 + b) div 16]"
| "b64_bytes [a] = []"
| "b64_bytes [] = []"

text \<open>The characters that are decoded: the data without whitespace and without padding.\<close>

definition b64_digits :: "string \<Rightarrow> string" where
  "b64_digits data =
     (let d1 = filter (\<lambda>c. \<not> is_ascii_whitespace c) data
      in if length d1 mod 4 = 0 then strip_padding d1 else d1)"

definition atob :: "string \<Rightarrow> nat list option" where
  "atob data =
     (let d2 = b64_digits data
      in if length d2 mod 4 = 1 then None
         else map_option b64_bytes (those (map b64_value d2)))"

section \<open>The size estimator\<close>

datatype js_error = InvalidCharacterError

text \<open>The body of the \<open>try\<close> block of \<open>getFileSizeFromDataURL\<close>: \<open>Inl\<close> is a thrown exception.\<close>

definition getFileSizeFromDataURL_try :: "string \<Rightarrow> js_error + real" where
  "getFileSizeFromDataURL_try dataurl =
     (case index_opt (split_on CHR '','' dataurl) 1 of
        None \<Rightarrow> Inr 0
      | Some base64 \<Rightarrow>
          if base64 = [] then Inr 0
          else (case atob base64 of
                  None \<Rightarrow> Inl InvalidCharacterError
                | Some binary \<Rightarrow> Inr (toFixed 2 (of_nat (length binary) / 1024))))"

text \<open>The whole function: the \<open>catch\<close> clause turns every exception into \<open>0\<close>.\<close>

definition getFileSizeFromDataURL :: "string \<Rightarrow> real" where
  "getFileSizeFromDataURL dataurl =
     (case getFileSizeFromDataURL_try dataurl of Inl e \<Rightarrow> 0 | Inr v \<Rightarrow> v)"

section \<open>Data model\<close>

text \<open>
  A browser \<open>File\<close>: its name, its declared MIME type, its size in bytes and its bytes.
  The browser keeps \<open>file_size\<close> equal to the number of bytes.
\<close>

record File =
  file_name :: string
  file_type :: string
  file_size :: nat
  file_content :: "nat list"

text \<open>The type \<open>ImageCompressionState\<close>; the fields \<open>id\<close> and \<open>file\<close> are \<open>img_id\<close> and \<open>img_file\<close> here.\<close>

record ImageCompressionState =
  img_id :: string
  img_file :: File
  originalSize :: real
  originalSrc :: string
  compressedSrc :: "string option"
  compressedSize :: real
  isCompressing :: bool
  error :: "string option"

text \<open>The state hooks of the component \<open>MultiImageCompressor\<close>.\<close>

record MultiImageCompressor =
  images :: "ImageCompressionState list"
  quality :: nat
  isProcessingAll :: bool

definition initial :: MultiImageCompressor where
  "initial = \<lparr>images = [], quality = 70, isProcessingAll = False\<rparr>"

definition MAX_TOTAL_SIZE_MB :: real where
  "MAX_TOTAL_SIZE_MB = 50"

text \<open>The messages shown by \<open>alert\<close>.\<close>

datatype alert =
    NotAnImage string
  | BatchSizeExceeded string
  | WaitForCompression
  | ZipError

text \<open>
  Every state update on one image has the shape
  \<open>setImages(prev => prev.map(img => img.id === imgId ? {...img, ...} : img))\<close>.
\<close>

definition update_image ::
  "string \<Rightarrow> (ImageCompressionState \<Rightarrow> ImageCompressionState) \<Rightarrow>
   ImageCompressionState list \<Rightarrow> ImageCompressionState list" where
  "update_image imgId f prev = map (\<lambda>img. if img_id img = imgId then f img else img) prev"

text \<open>\<open>images.reduce((sum, img) => sum + img.originalSize, 0)\<close>.\<close>

definition sum_originalSize :: "ImageCompressionState list \<Rightarrow> real" where
  "sum_originalSize imgs = foldl (\<lambda>sum img. sum + originalSize img) 0 imgs"

section \<open>Compression of one image\<close>

text \<open>
  \<open>compressImage\<close> runs in two parts. The synchronous part marks the image as compressing
  and clears its error. Later the browser calls \<open>img.onload\<close> or \<open>img.onerror\<close>. What the
  canvas produced is an input of the model: no 2d context, or the data URL returned by
  \<open>canvas.toDataURL\<close>.
\<close>

definition compressImage_start ::
  "string \<Rightarrow> ImageCompressionState list \<Rightarrow> ImageCompressionState list" where
  "compressImage_start imgId prev =
     update_image imgId (\<lambda>img. img\<lparr>isCompressing := True, error := None\<rparr>) prev"

datatype canvas_outcome = NoContext | ToDataURL string

fun compressImage_onload ::
  "string \<Rightarrow> canvas_outcome \<Rightarrow> ImageCompressionState list \<Rightarrow> ImageCompressionState list" where
  "compressImage_onload imgId NoContext prev =
     update_image imgId (\<lambda>img. img\<lparr>isCompressing := False, error := Some ''Canvas error.''\<rparr>) prev"
| "compressImage_onload imgId (ToDataURL compressedDataURL) prev =
     (let fileSize = getFileSizeFromDataURL compressedDataURL
      in update_image imgId
           (\<lambda>img. img\<lparr>compressedSrc := Some compressedDataURL,
                       compressedSize := fileSize,
                       isCompressing := False\<rparr>) prev)"

definition compressImage_onerror ::
  "string \<Rightarrow> ImageCompressionState list \<Rightarrow> ImageCompressionState list" where
  "compressImage_onerror imgId prev =
     update_image imgId (\<lambda>i. i\<lparr>isCompressing := False, error := Some ''Image load failed.''\<rparr>) prev"

section \<open>Ingestion\<close>

text \<open>
  The loop of \<open>handleFileProcessing\<close>. \<open>uuid k\<close> is the \<open>k\<close>-th value that
  \<open>crypto.randomUUID()\<close> returns during the call, and \<open>file_sizeKB f\<close> is
  \<open>Number((file.size / 1024).toFixed(2))\<close>. The size of every file is added to
  \<open>totalSize\<close> before its type is looked at; \<open>continue\<close> goes on with the next file,
  \<open>break\<close> leaves the loop.
\<close>

definition file_sizeKB :: "File \<Rightarrow> real" where
  "file_sizeKB f = toFixed 2 (real (file_size f) / 1024)"

definition new_image :: "string \<Rightarrow> File \<Rightarrow> real \<Rightarrow> ImageCompressionState" where
  "new_image ident f sizeInKB =
     \<lparr>img_id = ident, img_file = f, originalSize = sizeInKB, originalSrc = [],
      compressedSrc = None, compressedSize = 0, isCompressing = False, error = None\<rparr>"

fun process_files ::
  "(nat \<Rightarrow> string) \<Rightarrow> nat \<Rightarrow> real \<Rightarrow> File list \<Rightarrow> ImageCompressionState list \<times> alert list" where
  "process_files uuid k totalSize [] = ([], [])"
| "process_files uuid k totalSize (f # fileList) =
     (let sizeInKB = file_sizeKB f;
          totalSize = totalSize + sizeInKB
      in if \<not> startsWith (file_type f) ''image/'' then
           (let (newImages, alerts) = process_files uuid k totalSize fileList
            in (newImages, NotAnImage (file_name f) # alerts))
         else if totalSize > MAX_TOTAL_SIZE_MB * 1024 then
           ([], [BatchSizeExceeded (file_name f)])
         else
           (let (newImages, alerts) = process_files uuid (Suc k) totalSize fileList
            in (new_image (uuid k) f sizeInKB # newImages, alerts)))"

definition handleFileProcessing ::
  "(nat \<Rightarrow> string) \<Rightarrow> File list \<Rightarrow> MultiImageCompressor \<Rightarrow> MultiImageCompressor \<times> alert list" where
  "handleFileProcessing uuid fileList st =
     (let totalSize = sum_originalSize (images st);
          (newImages, alerts) = process_files uuid 0 totalSize fileList
      in (st\<lparr>images := images st @ newImages\<rparr>, alerts))"

text \<open>
  The same loop and handler in a given arithmetic: the division and the conversion of the
  decimal string for the size, the additions of the running total, the product for the
  budget.
\<close>

definition file_sizeKB_in :: "arithmetic \<Rightarrow> File \<Rightarrow> real" where
  "file_sizeKB_in A f = num_op A (toFixed 2 (div_op A (real (file_size f)) 1024))"

fun process_files_in ::
  "arithmetic \<Rightarrow> (nat \<Rightarrow> string) \<Rightarrow> nat \<Rightarrow> real \<Rightarrow> File list \<Rightarrow>
   ImageCompressionState list \<times> alert list" where
  "process_files_in A uuid k totalSize [] = ([], [])"
| "process_files_in A uuid k totalSize (f # fileList) =
     (let sizeInKB = file_sizeKB_in A f;
          totalSize = add_op A totalSize sizeInKB
      in if \<not> startsWith (file_type f) ''image/'' then
           (let (newImages, alerts) = process_files_in A uuid k totalSize fileList
            in (newImages, NotAnImage (file_name f) # alerts))
         else if totalSize > mul_op A MAX_TOTAL_SIZE_MB 1024 then
           ([], [BatchSizeExceeded (file_name f)])
         else
           (let (newImages, alerts) = process_files_in A uuid (Suc k) totalSize fileList
            in (new_image (uuid k) f sizeInKB # newImages, alerts)))"

definition handleFileProcessing_in ::
  "arithmetic \<Rightarrow> (nat \<Rightarrow> string) \<Rightarrow> File list \<Rightarrow> MultiImageCompressor \<Rightarrow>
   MultiImageCompressor \<times> alert list" where
  "handleFileProcessing_in A uuid fileList st =
     (let totalSize = foldl (\<lambda>sum img. add_op A sum (originalSize img)) 0 (images st);
          (newImages, alerts) = process_files_in A uuid 0 totalSize fileList
      in (st\<lparr>images := images st @ newImages\<rparr>, alerts))"

text \<open>The callbacks of the \<open>FileReader\<close> of an accepted file.\<close>

definition reader_onloadstart ::
  "string \<Rightarrow> ImageCompressionState list \<Rightarrow> ImageCompressionState list" where
  "reader_onloadstart ident prev = update_image ident (\<lambda>img. img\<lparr>isCompressing := True\<rparr>) prev"

definition reader_onload ::
  "string \<Rightarrow> string \<Rightarrow> ImageCompressionState list \<Rightarrow> ImageCompressionState list" where
  "reader_onload ident src prev =
     compressImage_start ident
       (update_image ident (\<lambda>img. img\<lparr>originalSrc := src, isCompressing := True\<rparr>) prev)"

definition reader_onerror ::
  "string \<Rightarrow> ImageCompressionState list \<Rightarrow> ImageCompressionState list" where
  "reader_onerror ident prev =
     update_image ident (\<lambda>img. img\<lparr>isCompressing := False, error := Some ''Read error.''\<rparr>) prev"

section \<open>Quality change, removal and reset\<close>

text \<open>
  A call of \<open>compressImage(imgId, src, qualityPercent)\<close> that \<open>handleQualityChange\<close> makes:
  at once, or through \<open>setTimeout\<close> after the given number of milliseconds.
\<close>

datatype schedule = Immediately | After nat

record compress_call =
  call_when :: schedule
  call_id :: string
  call_src :: string
  call_quality :: nat

text \<open>
  \<open>handleQualityChange\<close>: the new state and the calls of \<open>compressImage\<close> it makes. The
  synchronous part of the immediate call is already applied in the new state; the deferred
  calls run when their timers fire.
\<close>

definition handleQualityChange ::
  "nat \<Rightarrow> MultiImageCompressor \<Rightarrow> MultiImageCompressor \<times> compress_call list" where
  "handleQualityChange newQuality st =
     (let st1 = st\<lparr>quality := newQuality\<rparr> in
      if length (images st) > 0 then
        (let st2 = st1\<lparr>isProcessingAll := True\<rparr>;
             (st3, now) =
               (case index_opt (images st) 0 of
                  None \<Rightarrow> (st2, [])
                | Some previewImage \<Rightarrow>
                    if originalSrc previewImage \<noteq> [] then
                      (st2\<lparr>images := compressImage_start (img_id previewImage) (images st2)\<rparr>,
                       [\<lparr>call_when = Immediately, call_id = img_id previewImage,
                         call_src = originalSrc previewImage, call_quality = newQuality\<rparr>])
                    else (st2, []));
             later =
               map (\<lambda>img. \<lparr>call_when = After 50, call_id = img_id img,
                             call_src = originalSrc img, call_quality = newQuality\<rparr>)
                 (filter (\<lambda>img. originalSrc img \<noteq> []) (drop 1 (images st)))
         in (st3, now @ later))
      else (st1, []))"

definition handleRemoveImage :: "string \<Rightarrow> MultiImageCompressor \<Rightarrow> MultiImageCompressor" where
  "handleRemoveImage ident st = st\<lparr>images := filter (\<lambda>img. img_id img \<noteq> ident) (images st)\<rparr>"

text \<open>The button \<open>Clear All Images and Reset\<close>: \<open>setImages([])\<close>.\<close>

definition clearAll :: "MultiImageCompressor \<Rightarrow> MultiImageCompressor" where
  "clearAll st = st\<lparr>images := []\<rparr>"

section \<open>Statistics\<close>

text \<open>\<open>images.reduce((sum, img) => sum + img.size, 0)\<close> in a given arithmetic.\<close>

definition sum_in ::
  "arithmetic \<Rightarrow> (ImageCompressionState \<Rightarrow> real) \<Rightarrow> ImageCompressionState list \<Rightarrow> real" where
  "sum_in A g imgs = foldl (\<lambda>sum img. add_op A sum (g img)) 0 imgs"

text \<open>
  The object computed by \<open>globalStats\<close>, in a given arithmetic. The four sizes are rendered
  with \<open>toFixed(1)\<close>; each field holds the number its string denotes.
\<close>

record stats =
  originalTotal :: real
  compressedTotal :: real
  saved :: real
  ratio :: real
  allCompressed :: bool

definition globalStats :: "arithmetic \<Rightarrow> ImageCompressionState list \<Rightarrow> stats" where
  "globalStats A imgs =
     (let originalTotal_n = sum_in A originalSize imgs;
          compressedTotal_n = sum_in A compressedSize imgs;
          saved_n = sub_op A originalTotal_n compressedTotal_n;
          ratio_n = (if originalTotal_n > 0
                     then mul_op A (div_op A saved_n originalTotal_n) 100 else 0);
          allCompressed_b =
            list_all (\<lambda>img. (truthy (compressedSrc img) \<or> truthy (error img)) \<and> \<not> isCompressing img) imgs
      in \<lparr>originalTotal = toFixed 1 originalTotal_n,
          compressedTotal = toFixed 1 compressedTotal_n,
          saved = (if saved_n > 0 then toFixed 1 saved_n else 0),
          ratio = (if ratio_n > 0 then toFixed 1 ratio_n else 0),
          allCompressed = (allCompressed_b \<and> length imgs > 0)\<rparr>)"

section \<open>The archive\<close>

text \<open>
  \<open>name.replace(/\.[^/.]+$/, "")\<close>: the leftmost position where a dot is followed, up to
  the end of the name, by one or more characters that are neither a slash nor a dot; the
  name is cut there. A name with no such position is left as it is.
\<close>

definition ext_char :: "char \<Rightarrow> bool" where
  "ext_char c = (c \<noteq> CHR ''/'' \<and> c \<noteq> CHR ''.'')"

fun remove_extension :: "string \<Rightarrow> string" where
  "remove_extension [] = []"
| "remove_extension (c # cs) =
     (if c = CHR ''.'' \<and> cs \<noteq> [] \<and> list_all ext_char cs then []
      else c # remove_extension cs)"

text \<open>
  \<open>zip.file(name, data, {base64: true})\<close> of the archive library. The files of an archive
  are keyed by their names: a file of the same name is replaced, any other name is added.
  This is the library on names without a slash, as the names of the files that a browser
  hands over are; for a name with a slash the library also adds the folders of the path.
\<close>

fun zip_file ::
  "string \<Rightarrow> string option \<Rightarrow> (string \<times> string option) list \<Rightarrow> (string \<times> string option) list" where
  "zip_file n d [] = [(n, d)]"
| "zip_file n d ((m, e) # files) =
     (if m = n then (n, d) # files else (m, e) # zip_file n d files)"

text \<open>
  The \<open>forEach\<close> loop of \<open>handleBatchDownload\<close>, run on the archive built so far. The data
  of an entry is the text after the first comma of the data URL.
\<close>

fun zip_files ::
  "nat \<Rightarrow> ImageCompressionState list \<Rightarrow> (string \<times> string option) list \<Rightarrow>
   (string \<times> string option) list" where
  "zip_files q [] archive = archive"
| "zip_files q (img # rest) archive =
     (case compressedSrc img of
        None \<Rightarrow> zip_files q rest archive
      | Some src \<Rightarrow>
          if src \<noteq> [] then
            (let base64 = index_opt (split_on CHR '','' src) 1;
                 originalName = remove_extension (file_name (img_file img));
                 fileName = originalName @ ''_Q'' @ string_of_nat q @ ''.jpg''
             in zip_files q rest (zip_file fileName base64 archive))
          else zip_files q rest archive)"


section \<open>The component as a transition system\<close>

text \<open>
  Everything that changes the state: the user's actions and the callbacks of the browser.
  \<open>CompressCall\<close> is the synchronous part of a deferred \<open>compressImage\<close> call.
\<close>

datatype event =
    FilesSelected "nat \<Rightarrow> string" "File list"
  | ReaderLoadStart string
  | ReaderLoad string string
  | ReaderError string
  | CompressCall string
  | ImageLoad string canvas_outcome
  | ImageError string
  | QualityChange nat
  | RemoveImage string
  | ClearAll
  | ProcessingAllTimeout

fun step :: "event \<Rightarrow> MultiImageCompressor \<Rightarrow> MultiImageCompressor" where
  "step (FilesSelected uuid fileList) st = fst (handleFileProcessing uuid fileList st)"
| "step (ReaderLoadStart ident) st = st\<lparr>images := reader_onloadstart ident (images st)\<rparr>"
| "step (ReaderLoad ident src) st = st\<lparr>images := reader_onload ident src (images st)\<rparr>"
| "step (ReaderError ident) st = st\<lparr>images := reader_onerror ident (images st)\<rparr>"
| "step (CompressCall imgId) st = st\<lparr>images := compressImage_start imgId (images st)\<rparr>"
| "step (ImageLoad imgId outcome) st = st\<lparr>images := compressImage_onload imgId outcome (images st)\<rparr>"
| "step (ImageError imgId) st = st\<lparr>images := compressImage_onerror imgId (images st)\<rparr>"
| "step (QualityChange newQuality) st = fst (handleQualityChange newQuality st)"
| "step (RemoveImage ident) st = handleRemoveImage ident st"
| "step ClearAll st = clearAll st"
| "step ProcessingAllTimeout st = st\<lparr>isProcessingAll := False\<rparr>"

text \<open>
  What the browser guarantees about an event: \<open>canvas.toDataURL\<close> returns a data URL, which
  is never the empty string (\<open>data:,\<close> is the shortest).
\<close>

fun browser_event :: "event \<Rightarrow> bool" where
  "browser_event (ImageLoad imgId (ToDataURL u)) = (u \<noteq> [])"
| "browser_event e = True"

inductive reachable :: "MultiImageCompressor \<Rightarrow> bool" where
  reachable_initial: "reachable initial"
| reachable_step: "reachable st \<Longrightarrow> browser_event e \<Longrightarrow> reachable (step e st)"

text \<open>A file of a given name, declared type and size, for the worked examples.\<close>

definition example_file :: "string \<Rightarrow> string \<Rightarrow> nat \<Rightarrow> File" where
  "example_file n t len =
     \<lparr>file_name = n, file_type = t, file_size = len, file_content = replicate len 0\<rparr>"

section \<open>The specification's view\<close>

text \<open>
  The specification gives every record a status. The source has no such field; the status
  is read off the fields it has: a record that is compressing is \<open>Loading\<close> until its
  original preview is there and \<open>Compressing\<close> afterwards; a record at rest is \<open>Errored\<close>
  with an error message, \<open>Ready\<close> with a compressed preview, and still \<open>Loading\<close>
  with neither.
\<close>

datatype status = Loading | Compressing | Ready | Errored

definition status_of :: "ImageCompressionState \<Rightarrow> status" where
  "status_of img =
     (if isCompressing img then (if originalSrc img = [] then Loading else Compressing)
      else if truthy (error img) then Errored
      else if truthy (compressedSrc img) then Ready
      else Loading)"

text \<open>
  The reference definition of \<open>computeStats\<close>, in the specification's words, evaluated in
  a given arithmetic.
\<close>

record BatchStats =
  originalTotalKB :: real
  compressedTotalKB :: real
  savedKB :: real
  reductionPercent :: real
  allDone :: bool

definition computeStats_reference :: "arithmetic \<Rightarrow> ImageCompressionState list \<Rightarrow> BatchStats" where
  "computeStats_reference A records =
     (let o_total = sum_in A originalSize records;
          c_total = sum_in A compressedSize records;
          s = max 0 (sub_op A o_total c_total)
      in \<lparr>originalTotalKB = o_total,
          compressedTotalKB = c_total,
          savedKB = s,
          reductionPercent = (if o_total > 0 then mul_op A (div_op A s o_total) 100 else 0),
          allDone = (records \<noteq> [] \<and>
                     list_all (\<lambda>r. status_of r = Ready \<or> status_of r = Errored) records)\<rparr>)"

section \<open>A worked example\<close>

text \<open>
  One file is selected on the empty batch, its reader delivers the original preview, and
  the image load ends with the given outcome of the canvas.
\<close>

definition example_batch :: "canvas_outcome \<Rightarrow> MultiImageCompressor" where
  "example_batch outcome =
     step (ImageLoad ''u'' outcome)
       (step (ReaderLoad ''u'' ''data:image/png;base64,AAAA'')
         (step (FilesSelected (\<lambda>k. ''u'') [example_file ''wide.png'' ''image/png'' 2048]) initial))"

text \<open>
  Three files are selected on the empty batch; the readers of the first two have delivered
  their previews, the third is still being read.
\<close>

definition example_three :: MultiImageCompressor where
  "example_three =
     step (ReaderLoad ''v'' ''data:image/png;base64,BBBB'')
       (step (ReaderLoad ''u'' ''data:image/png;base64,AAAA'')
         (step (FilesSelected (\<lambda>k. if k = 0 then ''u'' else if k = 1 then ''v'' else ''w'')
            [example_file ''a.png'' ''image/png'' 2048,
             example_file ''b.tar.gz'' ''image/png'' 1024,
             example_file ''c'' ''image/gif'' 3072]) initial))"


text \<open>
  An arithmetic keeps signs when a quotient by a positive number, taken times 100, has the
  sign of the dividend. Rounding to the nearest double does.
\<close>

definition sign_preserving :: "arithmetic \<Rightarrow> bool" where
  "sign_preserving A \<longleftrightarrow>
     (\<forall>x y. 0 < y \<longrightarrow>
        (0 \<le> x \<longrightarrow> 0 \<le> mul_op A (div_op A x y) 100) \<and>
        (x \<le> 0 \<longrightarrow> mul_op A (div_op A x y) 100 \<le> 0))"

text \<open>A data URL whose payload is the base64 text of 256 bytes.\<close>

definition payload_256 :: string where
  "payload_256 =
     ''data:image/jpeg;base64,'' @
     ''AAECAwQFBgcICQoLDA0ODxAREhMUFRYXGBkaGxwdHh8gISIjJCUmJygpKissLS4vMDEyMzQ1Njc4OTo7PD0+P0'' @
     ''BBQkNERUZHSElKS0xNTk9QUVJTVFVWV1hZWltcXV5fYGFiY2RlZmdoaWprbG1ub3BxcnN0dXZ3eHl6e3x9fn+A'' @
     ''gYKDhIWGh4iJiouMjY6PkJGSk5SVlpeYmZqbnJ2en6ChoqOkpaanqKmqq6ytrq+wsbKztLW2t7i5uru8vb6/wM'' @
     ''HCw8TFxsfIycrLzM3Oz9DR0tPU1dbX2Nna29zd3t/g4eLj5OXm5+jp6uvs7e7v8PHy8/T19vf4+fr7/P3+/w==''"

text \<open>
  The batch after one file of the given name and size, declared \<open>image/png\<close>, was selected on
  the empty batch, as the program computes it in doubles; and the batch after a file of 2 KB
  was selected, read, and compressed to the 256 bytes above.
\<close>

definition example_ingest :: "string \<Rightarrow> nat \<Rightarrow> ImageCompressionState list" where
  "example_ingest n len =
     images (fst (handleFileProcessing_in ieee (\<lambda>k. ''u'') [example_file n ''image/png'' len] initial))"

definition example_compressed :: "ImageCompressionState list" where
  "example_compressed =
     compressImage_onload ''u'' (ToDataURL payload_256)
       (reader_onload ''u'' ''data:image/png;base64,AAAA'' (example_ingest ''wide.png'' 2048))"

section \<open>Auxiliary facts\<close>

lemma toFixed_nonneg: "0 \<le> x \<Longrightarrow> 0 \<le> toFixed f x"
  by (simp add: toFixed_def)

lemma file_sizeKB_nonneg: "0 \<le> file_sizeKB f"
  by (simp add: file_sizeKB_def toFixed_nonneg)

lemma foldl_plus: "foldl (\<lambda>sum img. sum + g img) a xs = a + sum_list (map g xs)"
  for a :: real
  by (induction xs arbitrary: a) (simp_all add: add.assoc)

lemma sum_originalSize_eq: "sum_originalSize imgs = sum_list (map originalSize imgs)"
  by (simp add: sum_originalSize_def foldl_plus)

subsection \<open>The ingestion loop\<close>

lemma process_files_nonneg:
  "\<forall>img \<in> set (fst (process_files uuid k t fs)). 0 \<le> originalSize img"
proof (induction fs arbitrary: k t)
  case Nil
  show ?case by simp
next
  case (Cons f fs)
  show ?case
    using Cons.IH [of k "t + file_sizeKB f"] Cons.IH [of "Suc k" "t + file_sizeKB f"]
    by (auto simp: Let_def new_image_def file_sizeKB_nonneg split: prod.splits)
qed

lemma process_files_budget:
  "fst (process_files uuid k t fs) = [] \<or>
   t + sum_list (map originalSize (fst (process_files uuid k t fs))) \<le> MAX_TOTAL_SIZE_MB * 1024"
proof (induction fs arbitrary: k t)
  case Nil
  show ?case by simp
next
  case (Cons f fs)
  have nn: "0 \<le> file_sizeKB f" by (rule file_sizeKB_nonneg)
  show ?case
    using Cons.IH [of k "t + file_sizeKB f"] Cons.IH [of "Suc k" "t + file_sizeKB f"] nn
    by (auto simp: Let_def new_image_def split: prod.splits)
qed

lemma process_files_over_budget:
  "MAX_TOTAL_SIZE_MB * 1024 < t \<Longrightarrow> fst (process_files uuid k t fs) = []"
proof (induction fs arbitrary: t)
  case Nil
  show ?case by simp
next
  case (Cons f fs)
  have "MAX_TOTAL_SIZE_MB * 1024 < t + file_sizeKB f"
    using Cons.prems file_sizeKB_nonneg [of f] by linarith
  then show ?case
    using Cons.IH [of "t + file_sizeKB f"]
    by (auto simp: Let_def split: prod.splits)
qed

lemma process_files_fail_fast:
  "MAX_TOTAL_SIZE_MB * 1024 <
     t + sum_list (map originalSize (fst (process_files uuid k t pre))) + file_sizeKB f \<Longrightarrow>
   fst (process_files uuid k t (pre @ f # post)) = fst (process_files uuid k t pre)"
proof (induction pre arbitrary: k t)
  case Nil
  then have over: "MAX_TOTAL_SIZE_MB * 1024 < t + file_sizeKB f" by simp
  show ?case
    using over process_files_over_budget [OF over, of uuid k post]
    by (auto simp: Let_def split: prod.splits)
next
  case (Cons p pre)
  have nn: "0 \<le> file_sizeKB p" by (rule file_sizeKB_nonneg)
  show ?case
  proof (cases "startsWith (file_type p) ''image/''")
    case False
    then have "MAX_TOTAL_SIZE_MB * 1024 <
        (t + file_sizeKB p) + sum_list (map originalSize (fst (process_files uuid k (t + file_sizeKB p) pre))) + file_sizeKB f"
      using Cons.prems nn by (auto simp: Let_def split: prod.splits)
    from Cons.IH [OF this] False show ?thesis
      by (auto simp: Let_def split: prod.splits)
  next
    case True
    show ?thesis
    proof (cases "MAX_TOTAL_SIZE_MB * 1024 < t + file_sizeKB p")
      case over: True
      with True show ?thesis by (simp add: Let_def)
    next
      case False
      with True have "MAX_TOTAL_SIZE_MB * 1024 <
          (t + file_sizeKB p) + sum_list (map originalSize (fst (process_files uuid (Suc k) (t + file_sizeKB p) pre))) + file_sizeKB f"
        using Cons.prems by (auto simp: Let_def new_image_def split: prod.splits)
      from Cons.IH [OF this] True False show ?thesis
        by (auto simp: Let_def split: prod.splits)
    qed
  qed
qed

lemma map_originalSize_update:
  "(\<And>img. originalSize (f img) = originalSize img) \<Longrightarrow>
   map originalSize (update_image i f prev) = map originalSize prev"
  by (induction prev) (simp_all add: update_image_def)

lemma sum_list_filter_le:
  "\<forall>x \<in> set xs. 0 \<le> g x \<Longrightarrow> sum_list (map g (filter P xs)) \<le> sum_list (map g xs)"
  for g :: "'a \<Rightarrow> real"
  by (induction xs) auto

lemma nonneg_via_map:
  "(\<forall>img \<in> set xs. 0 \<le> originalSize img) \<longleftrightarrow> (\<forall>y \<in> set (map originalSize xs). 0 \<le> y)"
  by simp

lemma handleFileProcessing_budget:
  assumes nn: "\<forall>img \<in> set (images st). 0 \<le> originalSize img"
    and le: "sum_list (map originalSize (images st)) \<le> MAX_TOTAL_SIZE_MB * 1024"
  shows "(\<forall>img \<in> set (images (fst (handleFileProcessing uuid fileList st))). 0 \<le> originalSize img) \<and>
    sum_list (map originalSize (images (fst (handleFileProcessing uuid fileList st)))) \<le> MAX_TOTAL_SIZE_MB * 1024"
  using nn le process_files_nonneg [of uuid 0 "sum_originalSize (images st)" fileList]
    process_files_budget [of uuid 0 "sum_originalSize (images st)" fileList]
  by (auto simp: handleFileProcessing_def Let_def sum_originalSize_eq split: prod.splits)

lemma sizes_unchanged_budget:
  assumes "map originalSize imgs' = map originalSize imgs"
    and "\<forall>img \<in> set imgs. 0 \<le> originalSize img"
    and "sum_list (map originalSize imgs) \<le> b"
  shows "(\<forall>img \<in> set imgs'. 0 \<le> originalSize img) \<and> sum_list (map originalSize imgs') \<le> b"
  using assms by (metis nonneg_via_map)

lemma step_sizes:
  "(\<exists>uuid fileList. e = FilesSelected uuid fileList) \<or> (\<exists>ident. e = RemoveImage ident) \<or> e = ClearAll \<or>
   map originalSize (images (step e st)) = map originalSize (images st)"
proof (cases e)
  case (ImageLoad imgId outcome)
  then show ?thesis
    by (cases outcome) (simp_all add: map_originalSize_update Let_def)
next
  case (QualityChange q)
  then show ?thesis
    by (cases "images st")
      (simp_all add: handleQualityChange_def Let_def compressImage_start_def map_originalSize_update)
qed (simp_all add: reader_onloadstart_def reader_onload_def reader_onerror_def
      compressImage_start_def compressImage_onerror_def map_originalSize_update)

lemma step_budget:
  assumes nn: "\<forall>img \<in> set (images st). 0 \<le> originalSize img"
    and le: "sum_list (map originalSize (images st)) \<le> MAX_TOTAL_SIZE_MB * 1024"
  shows "(\<forall>img \<in> set (images (step e st)). 0 \<le> originalSize img) \<and>
    sum_list (map originalSize (images (step e st))) \<le> MAX_TOTAL_SIZE_MB * 1024"
proof -
  consider (ingest) uuid fileList where "e = FilesSelected uuid fileList"
    | (remove) ident where "e = RemoveImage ident"
    | (clear) "e = ClearAll"
    | (same) "map originalSize (images (step e st)) = map originalSize (images st)"
    using step_sizes [of e st] by blast
  then show ?thesis
  proof cases
    case ingest
    then show ?thesis using handleFileProcessing_budget [OF nn le] by simp
  next
    case remove
    have "sum_list (map originalSize (filter (\<lambda>img. img_id img \<noteq> ident) (images st)))
        \<le> sum_list (map originalSize (images st))"
      using nn by (rule sum_list_filter_le)
    with nn le show ?thesis by (simp add: remove handleRemoveImage_def)
  next
    case clear
    then show ?thesis by (simp add: clearAll_def MAX_TOTAL_SIZE_MB_def)
  next
    case same
    then show ?thesis using nn le by (rule sizes_unchanged_budget)
  qed
qed

lemma reachable_budget:
  "reachable st \<Longrightarrow>
   (\<forall>img \<in> set (images st). 0 \<le> originalSize img) \<and>
   sum_list (map originalSize (images st)) \<le> MAX_TOTAL_SIZE_MB * 1024"
proof (induction rule: reachable.induct)
  case reachable_initial
  show ?case by (simp add: initial_def MAX_TOTAL_SIZE_MB_def)
next
  case (reachable_step st e)
  then show ?case using step_budget by blast
qed

lemma example_file_simps:
  "file_name (example_file n t len) = n"
  "file_type (example_file n t len) = t"
  "file_size (example_file n t len) = len"
  by (simp_all add: example_file_def)

lemma handleFileProcessing_images:
  "images (fst (handleFileProcessing uuid fileList st)) =
   images st @ fst (process_files uuid 0 (sum_originalSize (images st)) fileList)"
  by (simp add: handleFileProcessing_def Let_def split_beta)

section \<open>The batch budget\<close>

text \<open>
  Claim C1. In every reachable state the sum of \<open>originalSize\<close> over the records of the
  batch is at most \<open>MAX_TOTAL_SIZE_MB * 1024\<close> KB (50 MB), and it still is after any further
  ingest call. Within one call, once a file would push the total of the batch over the
  budget, that file and every file after it are rejected: the call leaves the same records
  as the call on the files before it.
\<close>

theorem ingest_respects_budget:
  "(reachable st \<longrightarrow>
      sum_list (map originalSize (images st)) \<le> MAX_TOTAL_SIZE_MB * 1024 \<and>
      sum_list (map originalSize (images (fst (handleFileProcessing uuid fileList st))))
        \<le> MAX_TOTAL_SIZE_MB * 1024) \<and>
   (MAX_TOTAL_SIZE_MB * 1024 <
      sum_list (map originalSize (images (fst (handleFileProcessing uuid pre st)))) + file_sizeKB f \<longrightarrow>
      images (fst (handleFileProcessing uuid (pre @ f # post) st)) =
      images (fst (handleFileProcessing uuid pre st)))"
proof (intro conjI impI)
  assume r: "reachable st"
  from reachable_budget [OF r]
  show "sum_list (map originalSize (images st)) \<le> MAX_TOTAL_SIZE_MB * 1024" by simp
  from reachable_budget [OF r] handleFileProcessing_budget [of st uuid fileList]
  show "sum_list (map originalSize (images (fst (handleFileProcessing uuid fileList st))))
        \<le> MAX_TOTAL_SIZE_MB * 1024" by simp
next
  assume "MAX_TOTAL_SIZE_MB * 1024 <
      sum_list (map originalSize (images (fst (handleFileProcessing uuid pre st)))) + file_sizeKB f"
  then have "MAX_TOTAL_SIZE_MB * 1024 <
      sum_originalSize (images st) +
      sum_list (map originalSize (fst (process_files uuid 0 (sum_originalSize (images st)) pre))) +
      file_sizeKB f"
    by (simp add: handleFileProcessing_images sum_originalSize_eq)
  from process_files_fail_fast [OF this, of post]
  show "images (fst (handleFileProcessing uuid (pre @ f # post) st)) =
      images (fst (handleFileProcessing uuid pre st))"
    by (simp add: handleFileProcessing_images)
qed

theorem ingest_respects_budget_witness:
  "reachable initial \<and>
   sum_list (map originalSize (images initial)) \<le> MAX_TOTAL_SIZE_MB * 1024 \<and>
   sum_list (map originalSize (images (fst (handleFileProcessing (\<lambda>k. ''u'')
      [example_file ''a.png'' ''image/png'' 1024000] initial)))) \<le> MAX_TOTAL_SIZE_MB * 1024 \<and>
   MAX_TOTAL_SIZE_MB * 1024 <
      sum_list (map originalSize (images (fst (handleFileProcessing (\<lambda>k. ''u'')
        [example_file ''a.png'' ''image/png'' 1024000] initial)))) +
      file_sizeKB (example_file ''b.png'' ''image/png'' 61440000) \<and>
   images (fst (handleFileProcessing (\<lambda>k. ''u'')
      ([example_file ''a.png'' ''image/png'' 1024000] @
        example_file ''b.png'' ''image/png'' 61440000 # [example_file ''c.png'' ''image/png'' 1024]) initial)) =
   images (fst (handleFileProcessing (\<lambda>k. ''u'') [example_file ''a.png'' ''image/png'' 1024000] initial))"
proof -
  have over: "MAX_TOTAL_SIZE_MB * 1024 <
      sum_list (map originalSize (images (fst (handleFileProcessing (\<lambda>k. ''u'')
        [example_file ''a.png'' ''image/png'' 1024000] initial)))) +
      file_sizeKB (example_file ''b.png'' ''image/png'' 61440000)"
    by (simp add: handleFileProcessing_images sum_originalSize_def file_sizeKB_def toFixed_def
      MAX_TOTAL_SIZE_MB_def new_image_def Let_def example_file_simps initial_def)
  show ?thesis
    using ingest_respects_budget [of initial "\<lambda>k. ''u''" "[example_file ''a.png'' ''image/png'' 1024000]"
      "[example_file ''a.png'' ''image/png'' 1024000]" "example_file ''b.png'' ''image/png'' 61440000"
      "[example_file ''c.png'' ''image/png'' 1024]"] reachable_initial over
    by blast
qed

subsection \<open>Invariants of the records\<close>

lemma update_image_preserves:
  "(\<And>img. P img \<Longrightarrow> P (f img)) \<Longrightarrow> \<forall>img \<in> set prev. P img \<Longrightarrow>
   \<forall>img \<in> set (update_image i f prev). P img"
  by (auto simp: update_image_def)

lemma process_files_new:
  "img \<in> set (fst (process_files uuid k t fs)) \<Longrightarrow>
   \<exists>j f. f \<in> set fs \<and> img = new_image (uuid j) f (file_sizeKB f)"
proof (induction fs arbitrary: k t)
  case Nil
  then show ?case by simp
next
  case (Cons f fs)
  show ?case
  proof (cases "startsWith (file_type f) ''image/''")
    case False
    with Cons.prems have "img \<in> set (fst (process_files uuid k (t + file_sizeKB f) fs))"
      by (simp add: Let_def split_beta)
    from Cons.IH [OF this] show ?thesis by auto
  next
    case True
    show ?thesis
    proof (cases "MAX_TOTAL_SIZE_MB * 1024 < t + file_sizeKB f")
      case over: True
      with True Cons.prems show ?thesis by (simp add: Let_def)
    next
      case False
      with True Cons.prems have "img = new_image (uuid k) f (file_sizeKB f) \<or>
          img \<in> set (fst (process_files uuid (Suc k) (t + file_sizeKB f) fs))"
        by (simp add: Let_def split_beta)
      then show ?thesis
      proof
        assume "img = new_image (uuid k) f (file_sizeKB f)"
        then show ?thesis by auto
      next
        assume "img \<in> set (fst (process_files uuid (Suc k) (t + file_sizeKB f) fs))"
        from Cons.IH [OF this] show ?thesis by auto
      qed
    qed
  qed
qed

lemma step_preserves:
  assumes new: "\<And>ident f uuid fileList. e = FilesSelected uuid fileList \<Longrightarrow>
        P (new_image ident f (file_sizeKB f))"
    and start: "\<And>img. P img \<Longrightarrow> P (img\<lparr>isCompressing := True, error := None\<rparr>)"
    and failed: "\<And>img msg. P img \<Longrightarrow> P (img\<lparr>isCompressing := False, error := Some msg\<rparr>)"
    and compressed: "\<And>img u. e = ImageLoad (img_id img) (ToDataURL u) \<Longrightarrow> P img \<Longrightarrow>
        P (img\<lparr>compressedSrc := Some u, compressedSize := getFileSizeFromDataURL u, isCompressing := False\<rparr>)"
    and reading: "\<And>img. P img \<Longrightarrow> P (img\<lparr>isCompressing := True\<rparr>)"
    and read: "\<And>img src. P img \<Longrightarrow> P (img\<lparr>originalSrc := src, isCompressing := True\<rparr>)"
    and before: "\<forall>img \<in> set (images st). P img"
  shows "\<forall>img \<in> set (images (step e st)). P img"
proof (cases e)
  case (FilesSelected uuid fileList)
  have "P img" if "img \<in> set (fst (process_files uuid 0 (sum_originalSize (images st)) fileList))" for img
    using process_files_new [OF that] new [OF FilesSelected] by blast
  then show ?thesis
    using before by (auto simp: FilesSelected handleFileProcessing_images)
next
  case (ReaderLoadStart ident)
  then show ?thesis
    using update_image_preserves [of P, OF reading before] by (simp add: reader_onloadstart_def)
next
  case (ReaderLoad ident src)
  have "\<forall>img \<in> set (update_image ident (\<lambda>img. img\<lparr>originalSrc := src, isCompressing := True\<rparr>) (images st)). P img"
    using update_image_preserves [of P, OF read before] .
  from update_image_preserves [of P, OF start this] ReaderLoad show ?thesis
    by (simp add: reader_onload_def compressImage_start_def)
next
  case (ReaderError ident)
  then show ?thesis
    using update_image_preserves [of P, OF failed before] by (simp add: reader_onerror_def)
next
  case (CompressCall imgId)
  then show ?thesis
    using update_image_preserves [of P, OF start before] by (simp add: compressImage_start_def)
next
  case (ImageLoad imgId outcome)
  show ?thesis
  proof (cases outcome)
    case NoContext
    then show ?thesis
      using ImageLoad update_image_preserves [of P, OF failed before] by simp
  next
    case (ToDataURL u)
    then show ?thesis
      using ImageLoad before compressed by (auto simp: update_image_def Let_def)
  qed
next
  case (ImageError imgId)
  then show ?thesis
    using update_image_preserves [of P, OF failed before] by (simp add: compressImage_onerror_def)
next
  case (QualityChange q)
  show ?thesis
  proof (cases "images st")
    case Nil
    then show ?thesis using QualityChange by (simp add: handleQualityChange_def Let_def)
  next
    case (Cons p ps)
    then show ?thesis
      using QualityChange before update_image_preserves [of P, OF start before]
      by (simp add: handleQualityChange_def Let_def compressImage_start_def)
  qed
next
  case (RemoveImage ident)
  then show ?thesis using before by (simp add: handleRemoveImage_def)
next
  case ClearAll
  then show ?thesis by (simp add: clearAll_def)
next
  case ProcessingAllTimeout
  then show ?thesis using before by simp
qed

section \<open>Non-image files and the budget\<close>

text \<open>
  Claim C2 says that a file rejected as a non-image is not counted toward the batch
  budget, so that whether a later file of the same call is accepted does not depend on the
  size of an earlier non-image file. The loop adds the size of every file to \<open>totalSize\<close>
  before it looks at the type. On an empty batch, a text file of 60000 KB followed by an
  image of 1 KB: the image is rejected for the budget although the batch holds nothing. With
  the same text file at 1 KB the same image is accepted.
\<close>

theorem non_image_size_counts_toward_budget:
  "handleFileProcessing (\<lambda>k. ''u'')
     [example_file ''notes.txt'' ''text/plain'' 61440000, example_file ''photo.png'' ''image/png'' 1024]
     initial =
   (initial, [NotAnImage ''notes.txt'', BatchSizeExceeded ''photo.png'']) \<and>
   handleFileProcessing (\<lambda>k. ''u'')
     [example_file ''notes.txt'' ''text/plain'' 1024, example_file ''photo.png'' ''image/png'' 1024]
     initial =
   (initial\<lparr>images := [new_image ''u'' (example_file ''photo.png'' ''image/png'' 1024) 1]\<rparr>,
    [NotAnImage ''notes.txt''])"
  by (simp add: handleFileProcessing_def sum_originalSize_def file_sizeKB_def toFixed_def
      MAX_TOTAL_SIZE_MB_def Let_def example_file_simps initial_def)

section \<open>Compressed size and compressed preview\<close>

lemma reachable_sizes:
  "reachable st \<Longrightarrow>
   \<forall>img \<in> set (images st).
     (case compressedSrc img of None \<Rightarrow> compressedSize img = 0
      | Some u \<Rightarrow> compressedSize img = getFileSizeFromDataURL u)"
proof (induction rule: reachable.induct)
  case reachable_initial
  show ?case by (simp add: initial_def)
next
  case (reachable_step st e)
  show ?case
    by (rule step_preserves [OF _ _ _ _ _ _ reachable_step.IH])
      (auto simp: new_image_def split: option.splits)
qed

lemma example_batch_reachable: "u \<noteq> [] \<Longrightarrow> reachable (example_batch (ToDataURL u))"
  unfolding example_batch_def by (intro reachable_step reachable_initial) simp_all

lemma example_batch_images:
  "images (example_batch (ToDataURL u)) =
     [\<lparr>img_id = ''u'', img_file = example_file ''wide.png'' ''image/png'' 2048,
       originalSize = 2, originalSrc = ''data:image/png;base64,AAAA'',
       compressedSrc = Some u, compressedSize = getFileSizeFromDataURL u,
       isCompressing = False, error = None\<rparr>]"
  by (simp add: example_batch_def handleFileProcessing_def sum_originalSize_def file_sizeKB_def
      toFixed_def MAX_TOTAL_SIZE_MB_def Let_def example_file_simps initial_def new_image_def
      reader_onload_def compressImage_start_def update_image_def)

lemma size_of_empty_data_url: "getFileSizeFromDataURL ''data:,'' = 0"
  by (simp add: getFileSizeFromDataURL_def getFileSizeFromDataURL_try_def)

lemma size_of_hello_world:
  "getFileSizeFromDataURL ''data:image/jpeg;base64,SGVsbG8gd29ybGQ='' = 1 / 100"
  by (simp add: getFileSizeFromDataURL_def getFileSizeFromDataURL_try_def atob_def b64_digits_def
      is_ascii_whitespace_def strip_padding_def b64_value_def toFixed_def)

text \<open>
  Claim C3, amended. The claim says that in every reachable state \<open>compressedSize\<close> is \<open>0\<close>
  exactly when \<open>compressedSrc\<close> is \<open>null\<close>. A successful load stores the data URL and the
  size that \<open>getFileSizeFromDataURL\<close> gives for that URL together, whatever the size is. So
  in every reachable state \<open>compressedSize\<close> is \<open>0\<close> exactly when \<open>compressedSrc\<close> is
  \<open>null\<close> or the estimator returns \<open>0\<close> for the stored data URL.
\<close>

theorem compressedSize_tracks_compressedSrc:
  "reachable st \<Longrightarrow> img \<in> set (images st) \<Longrightarrow>
   (compressedSize img = 0 \<longleftrightarrow>
      compressedSrc img = None \<or>
      (\<exists>u. compressedSrc img = Some u \<and> getFileSizeFromDataURL u = 0))"
  using reachable_sizes [of st] by (auto split: option.splits)

theorem compressedSize_tracks_compressedSrc_witness:
  "reachable (example_batch (ToDataURL ''data:image/jpeg;base64,SGVsbG8gd29ybGQ='')) \<and>
   hd (images (example_batch (ToDataURL ''data:image/jpeg;base64,SGVsbG8gd29ybGQ='')))
     \<in> set (images (example_batch (ToDataURL ''data:image/jpeg;base64,SGVsbG8gd29ybGQ=''))) \<and>
   (compressedSize (hd (images (example_batch (ToDataURL ''data:image/jpeg;base64,SGVsbG8gd29ybGQ='')))) = 0 \<longleftrightarrow>
      compressedSrc (hd (images (example_batch (ToDataURL ''data:image/jpeg;base64,SGVsbG8gd29ybGQ='')))) = None \<or>
      (\<exists>u. compressedSrc (hd (images (example_batch (ToDataURL ''data:image/jpeg;base64,SGVsbG8gd29ybGQ='')))) = Some u \<and>
         getFileSizeFromDataURL u = 0))"
proof -
  have r: "reachable (example_batch (ToDataURL ''data:image/jpeg;base64,SGVsbG8gd29ybGQ=''))"
    by (rule example_batch_reachable) simp
  have m: "hd (images (example_batch (ToDataURL ''data:image/jpeg;base64,SGVsbG8gd29ybGQ='')))
     \<in> set (images (example_batch (ToDataURL ''data:image/jpeg;base64,SGVsbG8gd29ybGQ='')))"
    by (simp add: example_batch_images)
  from compressedSize_tracks_compressedSrc [OF r m] r m show ?thesis by blast
qed

text \<open>
  The claim as stated fails when the canvas returns a data URL without payload, as
  \<open>toDataURL\<close> does for a canvas without pixels: the record then holds the preview
  \<open>data:,\<close> with size \<open>0\<close>.
\<close>

theorem zero_size_with_preview:
  "reachable (example_batch (ToDataURL ''data:,'')) \<and>
   map compressedSrc (images (example_batch (ToDataURL ''data:,''))) = [Some ''data:,''] \<and>
   map compressedSize (images (example_batch (ToDataURL ''data:,''))) = [0]"
  by (simp add: example_batch_reachable example_batch_images size_of_empty_data_url)

section \<open>The size estimator is total and measures decoded bytes\<close>

lemma b64_bytes_length:
  "length xs mod 4 \<noteq> 1 \<Longrightarrow> length (b64_bytes xs) = 3 * length xs div 4"
proof (induction xs rule: b64_bytes.induct)
  case (1 a b c d rest)
  then have "length rest mod 4 \<noteq> 1" by (simp add: mod_Suc split: if_splits)
  with 1 show ?case by (simp add: Let_def)
qed (simp_all add: Let_def)

lemma those_length: "those xs = Some ys \<Longrightarrow> length ys = length xs"
  by (induction xs arbitrary: ys) (auto split: option.splits)

lemma strip_padding_length: "length (strip_padding d) \<le> length d"
  by (simp add: strip_padding_def)

lemma b64_digits_length: "length (b64_digits data) \<le> length data"
  using order_trans [OF strip_padding_length length_filter_le, of "\<lambda>c. \<not> is_ascii_whitespace c" data]
  by (simp add: b64_digits_def Let_def)

lemma atob_length:
  assumes "atob base64 = Some binary"
  shows "length binary = 3 * length (b64_digits base64) div 4"
proof -
  from assms have m: "length (b64_digits base64) mod 4 \<noteq> 1"
    by (auto simp: atob_def Let_def split: if_splits)
  with assms obtain vals where v: "those (map b64_value (b64_digits base64)) = Some vals"
      and b: "binary = b64_bytes vals"
    by (auto simp: atob_def Let_def)
  from those_length [OF v] have "length vals = length (b64_digits base64)" by simp
  with m b b64_bytes_length [of vals] show ?thesis by simp
qed

lemma atob_example: "atob ''SGVsbG8gd29ybGQ='' = Some [72, 101, 108, 108, 111, 32, 119, 111, 114, 108, 100]"
  by (simp add: atob_def b64_digits_def is_ascii_whitespace_def strip_padding_def b64_value_def)

lemma atob_invalid: "atob ''!!!!'' = None"
  by (simp add: atob_def b64_digits_def is_ascii_whitespace_def strip_padding_def b64_value_def)

lemma atob_one_byte: "atob ''QQ=='' = Some [65]"
  by (simp add: atob_def b64_digits_def is_ascii_whitespace_def strip_padding_def b64_value_def)

lemma toFixed_2_zero_iff: "toFixed 2 (real n / 1024) = 0 \<longleftrightarrow> n \<le> 5"
proof -
  have "toFixed 2 (real n / 1024) = 0 \<longleftrightarrow> \<lfloor>real n / 1024 * 100 + 1 / 2\<rfloor> = 0"
    by (simp add: toFixed_def)
  also have "\<dots> \<longleftrightarrow> real n / 1024 * 100 + 1 / 2 < 1"
    by (simp add: floor_eq_iff)
  also have "\<dots> \<longleftrightarrow> real n * 200 < 1024"
    by (simp add: field_simps)
  also have "\<dots> \<longleftrightarrow> n * 200 < 1024"
    by (metis of_nat_less_iff of_nat_mult of_nat_numeral)
  also have "\<dots> \<longleftrightarrow> n \<le> 5" by arith
  finally show ?thesis .
qed

text \<open>
  Claim C7, amended. \<open>getFileSizeFromDataURL\<close> never throws and returns \<open>0\<close> for a
  malformed payload: when there is no text after the first comma, and when \<open>atob\<close> rejects
  that text (the exception is caught). When \<open>atob\<close> accepts the text, the result is the number
  of decoded bytes divided by 1024 and rounded to two decimals, so it is \<open>0\<close> for up to five
  bytes. The decoded length is three quarters of the number of base64 digits, rounded down,
  and smaller than the length of the text. The claim gives the result as the decoded length
  divided by 1024, without the rounding.
\<close>

theorem getFileSizeFromDataURL_total:
  "(index_opt (split_on CHR '','' dataurl) 1 = None \<or>
    index_opt (split_on CHR '','' dataurl) 1 = Some [] \<longrightarrow>
      getFileSizeFromDataURL dataurl = 0) \<and>
   (index_opt (split_on CHR '','' dataurl) 1 = Some base64 \<and> base64 \<noteq> [] \<and> atob base64 = None \<longrightarrow>
      getFileSizeFromDataURL_try dataurl = Inl InvalidCharacterError \<and>
      getFileSizeFromDataURL dataurl = 0) \<and>
   (index_opt (split_on CHR '','' dataurl) 1 = Some base64 \<and> base64 \<noteq> [] \<and> atob base64 = Some binary \<longrightarrow>
      getFileSizeFromDataURL dataurl = toFixed 2 (real (length binary) / 1024) \<and>
      (getFileSizeFromDataURL dataurl = 0 \<longleftrightarrow> length binary \<le> 5) \<and>
      length binary = 3 * length (b64_digits base64) div 4 \<and>
      length binary < length base64)"
proof (intro conjI impI)
  assume "index_opt (split_on CHR '','' dataurl) 1 = None \<or>
    index_opt (split_on CHR '','' dataurl) 1 = Some []"
  then show "getFileSizeFromDataURL dataurl = 0"
    by (auto simp: getFileSizeFromDataURL_def getFileSizeFromDataURL_try_def)
next
  assume a: "index_opt (split_on CHR '','' dataurl) 1 = Some base64 \<and> base64 \<noteq> [] \<and> atob base64 = None"
  then show "getFileSizeFromDataURL_try dataurl = Inl InvalidCharacterError"
    by (simp add: getFileSizeFromDataURL_try_def)
  then show "getFileSizeFromDataURL dataurl = 0"
    by (simp add: getFileSizeFromDataURL_def)
next
  assume a: "index_opt (split_on CHR '','' dataurl) 1 = Some base64 \<and> base64 \<noteq> [] \<and> atob base64 = Some binary"
  then show r: "getFileSizeFromDataURL dataurl = toFixed 2 (real (length binary) / 1024)"
    by (simp add: getFileSizeFromDataURL_def getFileSizeFromDataURL_try_def)
  show "getFileSizeFromDataURL dataurl = 0 \<longleftrightarrow> length binary \<le> 5"
    unfolding r by (rule toFixed_2_zero_iff)
  from a show len: "length binary = 3 * length (b64_digits base64) div 4"
    by (simp add: atob_length)
  from a have "0 < length base64" by simp
  with len b64_digits_length [of base64] show "length binary < length base64" by linarith
qed

theorem getFileSizeFromDataURL_total_witness:
  "index_opt (split_on CHR '','' ''data:,'') 1 = Some [] \<and>
   getFileSizeFromDataURL ''data:,'' = 0 \<and>
   index_opt (split_on CHR '','' ''data:image/jpeg;base64,!!!!'') 1 = Some ''!!!!'' \<and>
   atob ''!!!!'' = None \<and>
   getFileSizeFromDataURL_try ''data:image/jpeg;base64,!!!!'' = Inl InvalidCharacterError \<and>
   getFileSizeFromDataURL ''data:image/jpeg;base64,!!!!'' = 0 \<and>
   index_opt (split_on CHR '','' ''data:image/jpeg;base64,SGVsbG8gd29ybGQ='') 1 = Some ''SGVsbG8gd29ybGQ='' \<and>
   atob ''SGVsbG8gd29ybGQ='' = Some [72, 101, 108, 108, 111, 32, 119, 111, 114, 108, 100] \<and>
   getFileSizeFromDataURL ''data:image/jpeg;base64,SGVsbG8gd29ybGQ='' =
     toFixed 2 (real (length [72, 101, 108, 108, 111, 32, 119, 111, 114, 108, 100 :: nat]) / 1024) \<and>
   length [72, 101, 108, 108, 111, 32, 119, 111, 114, 108, 100 :: nat] < length ''SGVsbG8gd29ybGQ=''"
proof -
  have s1: "index_opt (split_on CHR '','' ''data:,'') 1 = Some []" by simp
  have s2: "index_opt (split_on CHR '','' ''data:image/jpeg;base64,!!!!'') 1 = Some ''!!!!''" by simp
  have s3: "index_opt (split_on CHR '','' ''data:image/jpeg;base64,SGVsbG8gd29ybGQ='') 1 =
      Some ''SGVsbG8gd29ybGQ=''" by simp
  have n2: "''!!!!'' \<noteq> []" and n3: "''SGVsbG8gd29ybGQ='' \<noteq> []" by simp_all
  from getFileSizeFromDataURL_total [of "''data:,''"] s1
  have c1: "getFileSizeFromDataURL ''data:,'' = 0" by blast
  from getFileSizeFromDataURL_total [of "''data:image/jpeg;base64,!!!!''" "''!!!!''"] s2 n2 atob_invalid
  have c2: "getFileSizeFromDataURL_try ''data:image/jpeg;base64,!!!!'' = Inl InvalidCharacterError \<and>
      getFileSizeFromDataURL ''data:image/jpeg;base64,!!!!'' = 0" by blast
  from getFileSizeFromDataURL_total [of "''data:image/jpeg;base64,SGVsbG8gd29ybGQ=''" "''SGVsbG8gd29ybGQ=''"
      "[72, 101, 108, 108, 111, 32, 119, 111, 114, 108, 100]"] s3 n3 atob_example
  have c3: "getFileSizeFromDataURL ''data:image/jpeg;base64,SGVsbG8gd29ybGQ='' =
     toFixed 2 (real (length [72, 101, 108, 108, 111, 32, 119, 111, 114, 108, 100 :: nat]) / 1024) \<and>
     length [72, 101, 108, 108, 111, 32, 119, 111, 114, 108, 100 :: nat] < length ''SGVsbG8gd29ybGQ=''"
    by blast
  from s1 c1 s2 atob_invalid c2 s3 atob_example c3 show ?thesis by blast
qed

text \<open>
  The claim as stated fails on a payload of one byte: the decoded length divided by 1024
  is \<open>1 / 1024\<close>, the function returns \<open>0\<close>.
\<close>

theorem one_byte_payload_measures_zero:
  "index_opt (split_on CHR '','' ''data:text/plain;base64,QQ=='') 1 = Some ''QQ=='' \<and>
   atob ''QQ=='' = Some [65] \<and>
   getFileSizeFromDataURL ''data:text/plain;base64,QQ=='' = 0 \<and>
   getFileSizeFromDataURL ''data:text/plain;base64,QQ=='' \<noteq> real (length [65 :: nat]) / 1024"
  by (simp add: atob_one_byte getFileSizeFromDataURL_def getFileSizeFromDataURL_try_def toFixed_def)

subsection \<open>The worked example with a payload of eleven bytes\<close>

lemma hello_batch_images:
  "images (example_batch (ToDataURL ''data:image/jpeg;base64,SGVsbG8gd29ybGQ='')) =
     [\<lparr>img_id = ''u'', img_file = example_file ''wide.png'' ''image/png'' 2048,
       originalSize = 2, originalSrc = ''data:image/png;base64,AAAA'',
       compressedSrc = Some ''data:image/jpeg;base64,SGVsbG8gd29ybGQ='', compressedSize = 1 / 100,
       isCompressing = False, error = None\<rparr>]"
  by (simp add: example_batch_images size_of_hello_world)

section \<open>Removal and late completions\<close>

lemma update_image_absent:
  "imgId \<notin> img_id ` set prev \<Longrightarrow> update_image imgId f prev = prev"
  by (induction prev) (auto simp: update_image_def)

lemma filter_absent:
  "ident \<notin> img_id ` set imgs \<Longrightarrow> filter (\<lambda>img. img_id img \<noteq> ident) imgs = imgs"
  by (induction imgs) auto

lemma removed_is_absent: "ident \<notin> img_id ` set (images (handleRemoveImage ident st))"
  by (auto simp: handleRemoveImage_def)

lemma completion_absent:
  assumes "ident \<notin> img_id ` set (images st)"
  shows "step (ImageLoad ident outcome) st = st" and "step (ImageError ident) st = st"
    and "step (CompressCall ident) st = st" and "step (ReaderLoad ident src) st = st"
    and "step (ReaderLoadStart ident) st = st" and "step (ReaderError ident) st = st"
  using assms
  by (cases outcome; simp add: update_image_absent compressImage_onerror_def compressImage_start_def
      reader_onload_def reader_onloadstart_def reader_onerror_def Let_def)+

text \<open>
  Claim C5. \<open>handleRemoveImage\<close> keeps exactly the records with another id, so the record
  with the given id is gone afterwards, and nothing changes when no record has that id. In
  a state where no record has the id, a completion of \<open>compressImage\<close> addressed to it,
  success or failure, leaves the state as it is; in particular after the removal the record
  does not come back. The same holds for the start of a deferred \<open>compressImage\<close> call and
  for the callbacks of the file reader.
\<close>

theorem remove_and_late_completion:
  "images (handleRemoveImage ident st) = filter (\<lambda>img. img_id img \<noteq> ident) (images st) \<and>
   ident \<notin> img_id ` set (images (handleRemoveImage ident st)) \<and>
   (ident \<notin> img_id ` set (images st) \<longrightarrow>
      handleRemoveImage ident st = st \<and>
      step (ImageLoad ident outcome) st = st \<and>
      step (ImageError ident) st = st \<and>
      step (CompressCall ident) st = st \<and>
      step (ReaderLoad ident src) st = st \<and>
      step (ReaderLoadStart ident) st = st \<and>
      step (ReaderError ident) st = st) \<and>
   step (ImageLoad ident outcome) (handleRemoveImage ident st) = handleRemoveImage ident st \<and>
   step (ImageError ident) (handleRemoveImage ident st) = handleRemoveImage ident st"
proof (intro conjI impI)
  show "images (handleRemoveImage ident st) = filter (\<lambda>img. img_id img \<noteq> ident) (images st)"
    by (simp add: handleRemoveImage_def)
  show "ident \<notin> img_id ` set (images (handleRemoveImage ident st))"
    by (rule removed_is_absent)
  show "step (ImageLoad ident outcome) (handleRemoveImage ident st) = handleRemoveImage ident st"
    by (rule completion_absent [OF removed_is_absent])
  show "step (ImageError ident) (handleRemoveImage ident st) = handleRemoveImage ident st"
    by (rule completion_absent [OF removed_is_absent])
next
  assume a: "ident \<notin> img_id ` set (images st)"
  then show "handleRemoveImage ident st = st"
    by (simp add: handleRemoveImage_def filter_absent)
  from a show "step (ImageLoad ident outcome) st = st" by (rule completion_absent)
  from a show "step (ImageError ident) st = st" by (rule completion_absent)
  from a show "step (CompressCall ident) st = st" by (rule completion_absent)
  from a show "step (ReaderLoad ident src) st = st" by (rule completion_absent)
  from a show "step (ReaderLoadStart ident) st = st" by (rule completion_absent)
  from a show "step (ReaderError ident) st = st" by (rule completion_absent)
qed

theorem remove_and_late_completion_witness:
  "''zz'' \<notin> img_id ` set (images (example_batch (ToDataURL ''data:,''))) \<and>
   handleRemoveImage ''zz'' (example_batch (ToDataURL ''data:,'')) = example_batch (ToDataURL ''data:,'') \<and>
   step (ImageLoad ''zz'' (ToDataURL ''data:image/jpeg;base64,SGVsbG8gd29ybGQ='')) (example_batch (ToDataURL ''data:,''))
     = example_batch (ToDataURL ''data:,'') \<and>
   step (ImageError ''zz'') (example_batch (ToDataURL ''data:,'')) = example_batch (ToDataURL ''data:,'') \<and>
   images (handleRemoveImage ''u'' (example_batch (ToDataURL ''data:,''))) = [] \<and>
   images (step (ImageLoad ''u'' (ToDataURL ''data:image/jpeg;base64,SGVsbG8gd29ybGQ=''))
     (handleRemoveImage ''u'' (example_batch (ToDataURL ''data:,'')))) = []"
proof -
  have a: "''zz'' \<notin> img_id ` set (images (example_batch (ToDataURL ''data:,'')))"
    by (simp add: example_batch_images)
  have e: "images (handleRemoveImage ''u'' (example_batch (ToDataURL ''data:,''))) = []"
    using remove_and_late_completion [of "''u''" "example_batch (ToDataURL ''data:,'')"]
    by (simp add: example_batch_images)
  from remove_and_late_completion [of "''u''" "example_batch (ToDataURL ''data:,'')"
      "ToDataURL ''data:image/jpeg;base64,SGVsbG8gd29ybGQ=''"] e
  have f: "images (step (ImageLoad ''u'' (ToDataURL ''data:image/jpeg;base64,SGVsbG8gd29ybGQ=''))
     (handleRemoveImage ''u'' (example_batch (ToDataURL ''data:,'')))) = []"
    by simp
  from remove_and_late_completion [of "''zz''" "example_batch (ToDataURL ''data:,'')"
      "ToDataURL ''data:image/jpeg;base64,SGVsbG8gd29ybGQ=''"] a e f
  show ?thesis by blast
qed

section \<open>Failed and restarted compressions\<close>

lemma map_update_image:
  "map g (update_image imgId f prev) = map (\<lambda>img. if img_id img = imgId then g (f img) else g img) prev"
  by (simp add: update_image_def)

lemma map_if_same: "map (\<lambda>img. if c img then g img else g img) prev = map g prev"
  by simp

lemma null_preview_origin:
  assumes "img' \<in> set (images (step e st))" and "compressedSrc img' = None"
  shows "(\<exists>img \<in> set (images st). img_id img = img_id img' \<and> compressedSrc img = None) \<or>
    (\<exists>uuid fileList. e = FilesSelected uuid fileList)"
proof -
  let ?P = "\<lambda>r. compressedSrc r = None \<longrightarrow>
    (\<exists>img \<in> set (images st). img_id img = img_id r \<and> compressedSrc img = None) \<or>
    (\<exists>uuid fileList. e = FilesSelected uuid fileList)"
  have "\<forall>r \<in> set (images (step e st)). ?P r"
  proof (cases "\<exists>uuid fileList. e = FilesSelected uuid fileList")
    case True
    then show ?thesis by blast
  next
    case False
    show ?thesis
      by (rule step_preserves) (use False in auto)
  qed
  with assms show ?thesis by blast
qed

lemma ingest_keeps_records:
  "take (length (images st)) (images (step (FilesSelected uuid fileList) st)) = images st"
  by (simp add: handleFileProcessing_images)

text \<open>
  Claim C6. A failed compression attempt (no canvas context, or the image does not load)
  leaves \<open>compressedSrc\<close> and \<open>compressedSize\<close> of every record as they are and sets the error
  message of the record it is addressed to. Starting a compression attempt clears the error
  message of that record and also leaves the compressed result alone. A populated
  \<open>compressedSrc\<close> is never reset to \<open>null\<close>: after any event but a file selection, a record
  with a null preview had a null preview before, and a file selection keeps the records
  that are there.
\<close>

theorem failure_keeps_result_and_start_clears_error:
  "map compressedSrc (compressImage_onerror imgId prev) = map compressedSrc prev \<and>
   map compressedSize (compressImage_onerror imgId prev) = map compressedSize prev \<and>
   map error (compressImage_onerror imgId prev) =
     map (\<lambda>img. if img_id img = imgId then Some ''Image load failed.'' else error img) prev \<and>
   map compressedSrc (compressImage_onload imgId NoContext prev) = map compressedSrc prev \<and>
   map compressedSize (compressImage_onload imgId NoContext prev) = map compressedSize prev \<and>
   map error (compressImage_onload imgId NoContext prev) =
     map (\<lambda>img. if img_id img = imgId then Some ''Canvas error.'' else error img) prev \<and>
   map compressedSrc (compressImage_start imgId prev) = map compressedSrc prev \<and>
   map compressedSize (compressImage_start imgId prev) = map compressedSize prev \<and>
   map error (compressImage_start imgId prev) =
     map (\<lambda>img. if img_id img = imgId then None else error img) prev \<and>
   (img' \<in> set (images (step e st)) \<and> compressedSrc img' = None \<longrightarrow>
      (\<exists>img \<in> set (images st). img_id img = img_id img' \<and> compressedSrc img = None) \<or>
      (\<exists>uuid fileList. e = FilesSelected uuid fileList)) \<and>
   take (length (images st)) (images (step (FilesSelected uuid fileList) st)) = images st"
proof (intro conjI impI)
  show "img' \<in> set (images (step e st)) \<and> compressedSrc img' = None \<Longrightarrow>
      (\<exists>img \<in> set (images st). img_id img = img_id img' \<and> compressedSrc img = None) \<or>
      (\<exists>uuid fileList. e = FilesSelected uuid fileList)"
    using null_preview_origin [of img' e st] by blast
  show "take (length (images st)) (images (step (FilesSelected uuid fileList) st)) = images st"
    by (rule ingest_keeps_records)
qed (simp_all add: compressImage_onerror_def compressImage_start_def map_update_image)


lemma example_batch_no_context:
  "images (example_batch NoContext) =
     [\<lparr>img_id = ''u'', img_file = example_file ''wide.png'' ''image/png'' 2048,
       originalSize = 2, originalSrc = ''data:image/png;base64,AAAA'',
       compressedSrc = None, compressedSize = 0,
       isCompressing = False, error = Some ''Canvas error.''\<rparr>]"
  by (simp add: example_batch_def handleFileProcessing_def sum_originalSize_def file_sizeKB_def
      toFixed_def MAX_TOTAL_SIZE_MB_def Let_def example_file_simps initial_def new_image_def
      reader_onload_def compressImage_start_def update_image_def)

theorem failure_keeps_result_and_start_clears_error_witness:
  "hd (images (step (ImageError ''u'') (example_batch NoContext)))
     \<in> set (images (step (ImageError ''u'') (example_batch NoContext))) \<and>
   compressedSrc (hd (images (step (ImageError ''u'') (example_batch NoContext)))) = None \<and>
   ((\<exists>img \<in> set (images (example_batch NoContext)).
       img_id img = img_id (hd (images (step (ImageError ''u'') (example_batch NoContext)))) \<and>
       compressedSrc img = None) \<or>
    (\<exists>uuid fileList. ImageError ''u'' = FilesSelected uuid fileList)) \<and>
   map compressedSrc (compressImage_onerror ''u''
       (images (example_batch (ToDataURL ''data:image/jpeg;base64,SGVsbG8gd29ybGQ='')))) =
     [Some ''data:image/jpeg;base64,SGVsbG8gd29ybGQ=''] \<and>
   map error (compressImage_onerror ''u''
       (images (example_batch (ToDataURL ''data:image/jpeg;base64,SGVsbG8gd29ybGQ='')))) =
     [Some ''Image load failed.''] \<and>
   map error (compressImage_start ''u'' (images (example_batch NoContext))) = [None]"
proof -
  have m: "hd (images (step (ImageError ''u'') (example_batch NoContext)))
      \<in> set (images (step (ImageError ''u'') (example_batch NoContext)))"
    by (simp add: example_batch_no_context compressImage_onerror_def update_image_def)
  have n: "compressedSrc (hd (images (step (ImageError ''u'') (example_batch NoContext)))) = None"
    by (simp add: example_batch_no_context compressImage_onerror_def update_image_def)
  note t = failure_keeps_result_and_start_clears_error
  from t [of "''u''" "images (example_batch NoContext)"
      "hd (images (step (ImageError ''u'') (example_batch NoContext)))"
      "ImageError ''u''" "example_batch NoContext"] m n
  have o: "(\<exists>img \<in> set (images (example_batch NoContext)).
       img_id img = img_id (hd (images (step (ImageError ''u'') (example_batch NoContext)))) \<and>
       compressedSrc img = None) \<or>
    (\<exists>uuid fileList. ImageError ''u'' = FilesSelected uuid fileList)"
    by blast
  from t [of "''u''" "images (example_batch NoContext)"]
  have s: "map error (compressImage_start ''u'' (images (example_batch NoContext))) = [None]"
    by (simp add: example_batch_no_context)
  from t [of "''u''" "images (example_batch (ToDataURL ''data:image/jpeg;base64,SGVsbG8gd29ybGQ=''))"]
  have f: "map compressedSrc (compressImage_onerror ''u''
       (images (example_batch (ToDataURL ''data:image/jpeg;base64,SGVsbG8gd29ybGQ='')))) =
     [Some ''data:image/jpeg;base64,SGVsbG8gd29ybGQ=''] \<and>
   map error (compressImage_onerror ''u''
       (images (example_batch (ToDataURL ''data:image/jpeg;base64,SGVsbG8gd29ybGQ='')))) =
     [Some ''Image load failed.'']"
    by (simp add: hello_batch_images)
  from m n o s f show ?thesis by blast
qed

section \<open>Quality change\<close>

lemma calls_of_handleQualityChange:
  "map (\<lambda>c. (call_id c, call_src c, call_quality c)) (snd (handleQualityChange newQuality st)) =
   map (\<lambda>img. (img_id img, originalSrc img, newQuality))
     (filter (\<lambda>img. originalSrc img \<noteq> []) (images st))"
  by (cases "images st") (simp_all add: handleQualityChange_def Let_def)

lemma schedule_of_handleQualityChange:
  "map call_when (snd (handleQualityChange newQuality st)) =
   (case images st of [] \<Rightarrow> []
    | previewImage # others \<Rightarrow>
        (if originalSrc previewImage \<noteq> [] then [Immediately] else []) @
        map (\<lambda>img. After 50) (filter (\<lambda>img. originalSrc img \<noteq> []) others))"
  by (cases "images st") (simp_all add: handleQualityChange_def Let_def)

lemma quality_of_handleQualityChange:
  "quality (fst (handleQualityChange newQuality st)) = newQuality"
  by (cases "images st") (simp_all add: handleQualityChange_def Let_def)

lemma images_of_handleQualityChange:
  "images (fst (handleQualityChange newQuality st)) =
   (case images st of [] \<Rightarrow> []
    | previewImage # others \<Rightarrow>
        if originalSrc previewImage \<noteq> [] then compressImage_start (img_id previewImage) (images st)
        else images st)"
  by (cases "images st") (simp_all add: handleQualityChange_def Let_def)

lemma fold_compressImage_start:
  "fold compressImage_start ids prev =
   map (\<lambda>img. if img_id img \<in> set ids then img\<lparr>isCompressing := True, error := None\<rparr> else img) prev"
proof (induction ids arbitrary: prev)
  case Nil
  show ?case by simp
next
  case (Cons i ids)
  have "fold compressImage_start (i # ids) prev = fold compressImage_start ids (compressImage_start i prev)"
    by simp
  also have "\<dots> = map (\<lambda>img. if img_id img \<in> set ids then img\<lparr>isCompressing := True, error := None\<rparr> else img)
      (compressImage_start i prev)"
    by (rule Cons.IH)
  also have "\<dots> = map (\<lambda>img. if img_id img \<in> set (i # ids) then img\<lparr>isCompressing := True, error := None\<rparr> else img) prev"
    by (auto simp: compressImage_start_def update_image_def)
  finally show ?case .
qed

lemma id_among_filtered:
  assumes "distinct (map img_id imgs)" and "img \<in> set imgs"
  shows "img_id img \<in> img_id ` set (filter P imgs) \<longleftrightarrow> P img"
proof -
  from assms(1) have "inj_on img_id (set imgs)" by (simp add: distinct_map)
  with assms(2) show ?thesis by (auto dest: inj_onD)
qed

lemma deferred_starts:
  "fold compressImage_start
     (map call_id (filter (\<lambda>c. call_when c \<noteq> Immediately) (snd (handleQualityChange newQuality st))))
     (images (fst (handleQualityChange newQuality st))) =
   fold compressImage_start (map call_id (snd (handleQualityChange newQuality st))) (images st)"
proof (cases "images st")
  case Nil
  then show ?thesis by (simp add: handleQualityChange_def Let_def)
next
  case (Cons p others)
  have "filter (\<lambda>c. call_when c \<noteq> Immediately)
      (map (\<lambda>img. \<lparr>call_when = After 50, call_id = img_id img, call_src = originalSrc img,
          call_quality = newQuality\<rparr>) xs) =
      map (\<lambda>img. \<lparr>call_when = After 50, call_id = img_id img, call_src = originalSrc img,
          call_quality = newQuality\<rparr>) xs" for xs :: "ImageCompressionState list"
    by (induction xs) simp_all
  with Cons show ?thesis by (simp add: handleQualityChange_def Let_def)
qed

text \<open>
  Claim C8. \<open>handleQualityChange\<close> stores the new quality and calls \<open>compressImage\<close> with the
  new quality for exactly the records whose \<open>originalSrc\<close> is populated, in the order of the
  list, and for no record lacking one. The call for the first record of the list is made at
  once, the calls for the others through a timer of 50 ms. With unique ids, once the
  deferred calls have started, exactly the records with a populated \<open>originalSrc\<close> are
  compressing with their error cleared, and the others are as before.
\<close>

theorem handleQualityChange_recompresses:
  "handleQualityChange newQuality st = (st', calls) \<Longrightarrow> distinct (map img_id (images st)) \<Longrightarrow>
   quality st' = newQuality \<and>
   map (\<lambda>c. (call_id c, call_src c, call_quality c)) calls =
     map (\<lambda>img. (img_id img, originalSrc img, newQuality))
       (filter (\<lambda>img. originalSrc img \<noteq> []) (images st)) \<and>
   map call_when calls =
     (case images st of [] \<Rightarrow> []
      | previewImage # others \<Rightarrow>
          (if originalSrc previewImage \<noteq> [] then [Immediately] else []) @
          map (\<lambda>img. After 50) (filter (\<lambda>img. originalSrc img \<noteq> []) others)) \<and>
   images st' =
     (case images st of [] \<Rightarrow> []
      | previewImage # others \<Rightarrow>
          (if originalSrc previewImage \<noteq> []
           then previewImage\<lparr>isCompressing := True, error := None\<rparr> else previewImage) # others) \<and>
   fold compressImage_start (map call_id (filter (\<lambda>c. call_when c \<noteq> Immediately) calls)) (images st') =
     map (\<lambda>img. if originalSrc img \<noteq> [] then img\<lparr>isCompressing := True, error := None\<rparr> else img)
       (images st)"
proof (intro conjI)
  assume h: "handleQualityChange newQuality st = (st', calls)"
    and d: "distinct (map img_id (images st))"
  from h have st': "st' = fst (handleQualityChange newQuality st)"
    and calls: "calls = snd (handleQualityChange newQuality st)" by simp_all
  show "quality st' = newQuality"
    unfolding st' by (rule quality_of_handleQualityChange)
  show c: "map (\<lambda>c. (call_id c, call_src c, call_quality c)) calls =
     map (\<lambda>img. (img_id img, originalSrc img, newQuality))
       (filter (\<lambda>img. originalSrc img \<noteq> []) (images st))"
    unfolding calls by (rule calls_of_handleQualityChange)
  show "map call_when calls =
     (case images st of [] \<Rightarrow> []
      | previewImage # others \<Rightarrow>
          (if originalSrc previewImage \<noteq> [] then [Immediately] else []) @
          map (\<lambda>img. After 50) (filter (\<lambda>img. originalSrc img \<noteq> []) others))"
    unfolding calls by (rule schedule_of_handleQualityChange)
  show "images st' =
     (case images st of [] \<Rightarrow> []
      | previewImage # others \<Rightarrow>
          (if originalSrc previewImage \<noteq> []
           then previewImage\<lparr>isCompressing := True, error := None\<rparr> else previewImage) # others)"
  proof (cases "images st")
    case Nil
    then show ?thesis by (simp add: st' images_of_handleQualityChange)
  next
    case (Cons p others)
    with d have "img_id p \<notin> img_id ` set others" by simp
    then have "update_image (img_id p) f others = others" for f
      by (rule update_image_absent)
    with Cons show ?thesis
      by (simp add: st' images_of_handleQualityChange compressImage_start_def)
        (simp add: update_image_def)
  qed
  have ids: "map call_id calls = map img_id (filter (\<lambda>img. originalSrc img \<noteq> []) (images st))"
  proof -
    have "map call_id calls = map fst (map (\<lambda>c. (call_id c, call_src c, call_quality c)) calls)"
      by simp
    also have "\<dots> = map img_id (filter (\<lambda>img. originalSrc img \<noteq> []) (images st))"
      unfolding c by simp
    finally show ?thesis .
  qed
  have "fold compressImage_start (map call_id (filter (\<lambda>c. call_when c \<noteq> Immediately) calls)) (images st') =
      fold compressImage_start (map call_id calls) (images st)"
    unfolding st' calls by (rule deferred_starts)
  also have "\<dots> = map (\<lambda>img. if img_id img \<in> img_id ` set (filter (\<lambda>img. originalSrc img \<noteq> []) (images st))
        then img\<lparr>isCompressing := True, error := None\<rparr> else img) (images st)"
    by (simp add: fold_compressImage_start ids)
  also have "\<dots> = map (\<lambda>img. if originalSrc img \<noteq> [] then img\<lparr>isCompressing := True, error := None\<rparr> else img)
       (images st)"
  proof (rule map_cong)
    fix x
    assume x: "x \<in> set (images st)"
    have e: "(img_id x \<in> img_id ` set (filter (\<lambda>img. originalSrc img \<noteq> []) (images st))) =
        (originalSrc x \<noteq> [])"
      by (rule id_among_filtered [OF d x])
    show "(if img_id x \<in> img_id ` set (filter (\<lambda>img. originalSrc img \<noteq> []) (images st))
        then x\<lparr>isCompressing := True, error := None\<rparr> else x) =
      (if originalSrc x \<noteq> [] then x\<lparr>isCompressing := True, error := None\<rparr> else x)"
      by (simp only: e)
  qed (rule refl)
  finally show "fold compressImage_start (map call_id (filter (\<lambda>c. call_when c \<noteq> Immediately) calls)) (images st') =
     map (\<lambda>img. if originalSrc img \<noteq> [] then img\<lparr>isCompressing := True, error := None\<rparr> else img)
       (images st)" .
qed


lemma example_three_images:
  "images example_three =
     [\<lparr>img_id = ''u'', img_file = example_file ''a.png'' ''image/png'' 2048,
       originalSize = 2, originalSrc = ''data:image/png;base64,AAAA'',
       compressedSrc = None, compressedSize = 0, isCompressing = True, error = None\<rparr>,
      \<lparr>img_id = ''v'', img_file = example_file ''b.tar.gz'' ''image/png'' 1024,
       originalSize = 1, originalSrc = ''data:image/png;base64,BBBB'',
       compressedSrc = None, compressedSize = 0, isCompressing = True, error = None\<rparr>,
      \<lparr>img_id = ''w'', img_file = example_file ''c'' ''image/gif'' 3072,
       originalSize = 3, originalSrc = [],
       compressedSrc = None, compressedSize = 0, isCompressing = False, error = None\<rparr>]"
  by (simp add: example_three_def handleFileProcessing_def sum_originalSize_def file_sizeKB_def
      toFixed_def MAX_TOTAL_SIZE_MB_def Let_def example_file_simps initial_def new_image_def
      reader_onload_def compressImage_start_def update_image_def)

theorem handleQualityChange_recompresses_witness:
  "handleQualityChange 30 example_three =
     (fst (handleQualityChange 30 example_three), snd (handleQualityChange 30 example_three)) \<and>
   distinct (map img_id (images example_three)) \<and>
   quality (fst (handleQualityChange 30 example_three)) = 30 \<and>
   map (\<lambda>c. (call_id c, call_src c, call_quality c)) (snd (handleQualityChange 30 example_three)) =
     [(''u'', ''data:image/png;base64,AAAA'', 30), (''v'', ''data:image/png;base64,BBBB'', 30)] \<and>
   map call_when (snd (handleQualityChange 30 example_three)) = [Immediately, After 50]"
proof -
  have h: "handleQualityChange 30 example_three =
     (fst (handleQualityChange 30 example_three), snd (handleQualityChange 30 example_three))"
    by simp
  have d: "distinct (map img_id (images example_three))"
    by (simp add: example_three_images)
  from handleQualityChange_recompresses [OF h d]
  have "quality (fst (handleQualityChange 30 example_three)) = 30 \<and>
   map (\<lambda>c. (call_id c, call_src c, call_quality c)) (snd (handleQualityChange 30 example_three)) =
     [(''u'', ''data:image/png;base64,AAAA'', 30), (''v'', ''data:image/png;base64,BBBB'', 30)] \<and>
   map call_when (snd (handleQualityChange 30 example_three)) = [Immediately, After 50]"
    by (simp add: example_three_images)
  with h d show ?thesis by blast
qed

section \<open>The archive\<close>







lemma zip_file_map_of: "map_of (zip_file n d files) = (map_of files)(n \<mapsto> d)"
  by (induction n d files rule: zip_file.induct) auto


lemma zip_files_map_of:
  "\<forall>img \<in> set imgs. compressedSrc img \<noteq> Some [] \<Longrightarrow>
   map_of (zip_files q imgs archive) =
   map_of (rev (map (\<lambda>img. (remove_extension (file_name (img_file img)) @ ''_Q'' @ string_of_nat q @ ''.jpg'',
               case compressedSrc img of None \<Rightarrow> None | Some src \<Rightarrow> index_opt (split_on CHR '','' src) 1))
     (filter (\<lambda>img. compressedSrc img \<noteq> None) imgs)) @ archive)"
proof (induction imgs arbitrary: archive)
  case Nil
  show ?case by simp
next
  case (Cons img imgs)
  then show ?case
    by (cases "compressedSrc img") (auto simp: Let_def zip_file_map_of map_add_def fun_eq_iff split: option.splits)
qed














section \<open>Facts about doubles\<close>

lemma round_even_nonneg: "0 \<le> q \<Longrightarrow> 0 \<le> round_even q"
  by (auto simp: round_even_def Let_def)

lemma to_double_nonneg: "0 \<le> x \<Longrightarrow> 0 \<le> to_double x"
proof (cases "x = 0")
  case True
  then show ?thesis by (simp add: to_double_def)
next
  case False
  assume "0 \<le> x"
  with False have pos: "0 < x" by simp
  define u :: real where "u = 2 powi (max (bitlen \<lfloor>\<bar>x\<bar> * 2 ^ 1074\<rfloor> - 1075) (- 1022) - 52)"
  have u: "0 < u" by (simp add: u_def)
  then have "0 \<le> \<bar>x\<bar> / u" by simp
  then have "0 \<le> round_even (\<bar>x\<bar> / u)" by (rule round_even_nonneg)
  with u pos have "0 \<le> sgn x * of_int (round_even (\<bar>x\<bar> / u)) * u" by simp
  with False show ?thesis by (simp add: to_double_def Let_def u_def)
qed

lemma to_double_nonpos: "x \<le> 0 \<Longrightarrow> to_double x \<le> 0"
proof (cases "x = 0")
  case True
  then show ?thesis by (simp add: to_double_def)
next
  case False
  assume "x \<le> 0"
  with False have neg: "x < 0" by simp
  define u :: real where "u = 2 powi (max (bitlen \<lfloor>\<bar>x\<bar> * 2 ^ 1074\<rfloor> - 1075) (- 1022) - 52)"
  have u: "0 < u" by (simp add: u_def)
  then have "0 \<le> \<bar>x\<bar> / u" by simp
  then have "0 \<le> round_even (\<bar>x\<bar> / u)" by (rule round_even_nonneg)
  with u neg have "sgn x * of_int (round_even (\<bar>x\<bar> / u)) * u \<le> 0"
    by (simp add: mult_nonneg_nonpos2 mult_le_0_iff)
  with False show ?thesis by (simp add: to_double_def Let_def u_def)
qed

lemma to_double_zero: "to_double 0 = 0"
  by (simp add: to_double_def)

lemma bitlen_between:
  assumes "2 ^ n \<le> y" and "y < 2 ^ Suc n"
  shows "bitlen y = int n + 1"
proof (rule antisym)
  from assms(2) show "bitlen y \<le> int n + 1"
    by (simp add: bitlen_le_iff_power nat_add_distrib)
  from assms(1) show "int n + 1 \<le> bitlen y"
    by (simp add: bitlen_ge_iff_power nat_add_distrib)
qed

lemma to_double_eval:
  assumes lo: "2 ^ 52 \<le> x * 2 ^ k" and hi: "x * 2 ^ k < 2 ^ 53" and k: "k \<le> 1074"
  shows "to_double x = of_int (round_even (x * 2 ^ k)) / 2 ^ k"
proof -
  from lo have pos: "0 < x"
    by (metis less_le_trans mult_pos_pos not_less zero_less_numeral zero_less_power
        zero_less_mult_pos2 linorder_not_less mult_eq_0_iff order_less_le)
  define m where "m = 1074 - k"
  with k have km: "k + m = 1074" by simp
  have scale: "x * 2 ^ 1074 = (x * 2 ^ k) * 2 ^ m"
    by (simp add: km [symmetric] power_add)
  have lo': "(2::real) ^ (52 + m) \<le> x * 2 ^ 1074"
    unfolding scale power_add using lo by (simp add: mult_right_mono)
  have hi': "x * 2 ^ 1074 < (2::real) ^ (53 + m)"
    unfolding scale power_add using hi by (simp add: mult_strict_right_mono)
  let ?y = "\<lfloor>x * 2 ^ 1074\<rfloor>"
  have "(2::int) ^ (52 + m) \<le> ?y"
    using lo' by (simp add: le_floor_iff)
  moreover have "?y < (2::int) ^ Suc (52 + m)"
    using hi' by (simp add: floor_less_iff)
  ultimately have "bitlen ?y = int (52 + m) + 1" by (rule bitlen_between)
  then have e: "bitlen ?y - 1075 = 52 - int k" using km by simp
  from k have mx: "max (52 - int k) (- 1022) = 52 - int k" by simp
  have u: "(2::real) powi (52 - int k - 52) = 1 / 2 ^ k"
    by (simp add: power_int_def inverse_eq_divide power_one_over)
  from pos have ax: "\<bar>x\<bar> = x" and sx: "sgn x = 1" by simp_all
  from pos have nz: "x \<noteq> 0" by simp
  have "to_double x = sgn x * of_int (round_even (\<bar>x\<bar> / (1 / 2 ^ k))) * (1 / 2 ^ k)"
    unfolding to_double_def Let_def ax e mx u using nz by (simp only: if_False)
  then show ?thesis by (simp add: ax sx)
qed

lemma to_double_2: "to_double 2 = 2"
  by (simp add: to_double_eval [where k = 51] round_even_def)

lemma to_double_51200: "to_double 51200 = 51200"
  by (simp add: to_double_eval [where k = 37] round_even_def)

lemma to_double_15_100: "to_double (15 / 100) = 5404319552844595 / 2 ^ 55"
  by (simp add: to_double_eval [where k = 55] round_even_def)

section \<open>Classification by declared type\<close>



lemma process_files_in_exact: "process_files_in exact uuid k t fs = process_files uuid k t fs"
  by (induction fs arbitrary: k t)
    (simp_all add: exact_def file_sizeKB_in_def file_sizeKB_def Let_def)

lemma handleFileProcessing_in_exact:
  "handleFileProcessing_in exact uuid fs st = handleFileProcessing uuid fs st"
  by (simp add: handleFileProcessing_in_def handleFileProcessing_def process_files_in_exact
      sum_originalSize_def) (simp add: exact_def)





text \<open>
  The arithmetic matters for the budget test. Three files declared images of 52428780, 10
  and 10 bytes are 51199.98, 0.01 and 0.01 KB. In doubles the running total ends above
  51200 and the third file is rejected; with exact numbers it is 51200 and all three are
  accepted.
\<close>

lemma budget_test_in_doubles:
  "map (\<lambda>img. file_name (img_file img))
     (fst (process_files_in ieee (\<lambda>k. ''u'') 0 0
        [example_file ''big.png'' ''image/png'' 52428780,
         example_file ''small.png'' ''image/png'' 10,
         example_file ''last.png'' ''image/png'' 10])) = [''big.png'', ''small.png''] \<and>
   snd (process_files_in ieee (\<lambda>k. ''u'') 0 0
        [example_file ''big.png'' ''image/png'' 52428780,
         example_file ''small.png'' ''image/png'' 10,
         example_file ''last.png'' ''image/png'' 10]) = [BatchSizeExceeded ''last.png''] \<and>
   map (\<lambda>img. file_name (img_file img))
     (fst (process_files_in exact (\<lambda>k. ''u'') 0 0
        [example_file ''big.png'' ''image/png'' 52428780,
         example_file ''small.png'' ''image/png'' 10,
         example_file ''last.png'' ''image/png'' 10])) = [''big.png'', ''small.png'', ''last.png'']"
  by (simp add: ieee_def exact_def file_sizeKB_in_def toFixed_def MAX_TOTAL_SIZE_MB_def Let_def
      example_file_simps new_image_def to_double_eval [where k = 37] to_double_eval [where k = 59]
      round_even_def)







section \<open>Statistics against their reference definition\<close>

lemma toFixed_zero: "toFixed f 0 = 0"
  by (simp add: toFixed_def)

lemma clamp_nonneg: "0 \<le> r \<Longrightarrow> (if 0 < r then toFixed f r else 0) = toFixed f r"
  by (cases "r = 0") (auto simp: toFixed_zero)

lemma sign_preserving_ieee: "sign_preserving ieee"
  unfolding sign_preserving_def ieee_def
proof (intro allI impI conjI)
  fix x y :: real
  assume y: "0 < y"
  show "0 \<le> mul_op \<lparr>add_op = \<lambda>a b. to_double (a + b), sub_op = \<lambda>a b. to_double (a - b),
        mul_op = \<lambda>a b. to_double (a * b), div_op = \<lambda>a b. to_double (a / b), num_op = to_double\<rparr>
      (div_op \<lparr>add_op = \<lambda>a b. to_double (a + b), sub_op = \<lambda>a b. to_double (a - b),
        mul_op = \<lambda>a b. to_double (a * b), div_op = \<lambda>a b. to_double (a / b), num_op = to_double\<rparr> x y) 100"
    if "0 \<le> x"
  proof -
    from that y have "0 \<le> x / y" by simp
    then have "0 \<le> to_double (x / y)" by (rule to_double_nonneg)
    then have "0 \<le> to_double (x / y) * 100" by simp
    then have "0 \<le> to_double (to_double (x / y) * 100)" by (rule to_double_nonneg)
    then show ?thesis by simp
  qed
  show "mul_op \<lparr>add_op = \<lambda>a b. to_double (a + b), sub_op = \<lambda>a b. to_double (a - b),
        mul_op = \<lambda>a b. to_double (a * b), div_op = \<lambda>a b. to_double (a / b), num_op = to_double\<rparr>
      (div_op \<lparr>add_op = \<lambda>a b. to_double (a + b), sub_op = \<lambda>a b. to_double (a - b),
        mul_op = \<lambda>a b. to_double (a * b), div_op = \<lambda>a b. to_double (a / b), num_op = to_double\<rparr> x y) 100 \<le> 0"
    if "x \<le> 0"
  proof -
    from that y have "x / y \<le> 0" by (simp add: divide_nonpos_pos)
    then have "to_double (x / y) \<le> 0" by (rule to_double_nonpos)
    then have "to_double (x / y) * 100 \<le> 0" by simp
    then have "to_double (to_double (x / y) * 100) \<le> 0" by (rule to_double_nonpos)
    then show ?thesis by simp
  qed
qed

lemma sign_preserving_exact: "sign_preserving exact"
  by (simp add: sign_preserving_def exact_def divide_nonpos_pos)

lemma done_iff_status:
  "(truthy (compressedSrc img) \<or> truthy (error img)) \<and> \<not> isCompressing img \<longleftrightarrow>
   status_of img = Ready \<or> status_of img = Errored"
  by (simp add: status_of_def)

lemma globalStats_allCompressed:
  "allCompressed (globalStats A imgs) = allDone (computeStats_reference A imgs)"
  by (auto simp: globalStats_def computeStats_reference_def Let_def done_iff_status)

lemma globalStats_saved:
  "saved (globalStats A imgs) = toFixed 1 (savedKB (computeStats_reference A imgs))"
  by (simp add: globalStats_def computeStats_reference_def Let_def max_def toFixed_zero)

lemma globalStats_ratio:
  assumes "sign_preserving A"
  shows "ratio (globalStats A imgs) = toFixed 1 (reductionPercent (computeStats_reference A imgs))"
proof -
  let ?o = "sum_in A originalSize imgs"
  let ?s = "sub_op A ?o (sum_in A compressedSize imgs)"
  show ?thesis
  proof (cases "0 < ?o")
    case False
    then show ?thesis
      by (simp add: globalStats_def computeStats_reference_def Let_def toFixed_zero)
  next
    case True
    from assms True have pos: "0 \<le> x \<Longrightarrow> 0 \<le> mul_op A (div_op A x ?o) 100"
      and neg: "x \<le> 0 \<Longrightarrow> mul_op A (div_op A x ?o) 100 \<le> 0" for x
      by (simp_all add: sign_preserving_def)
    show ?thesis
    proof (cases "0 < ?s")
      case s: True
      then have m: "max 0 ?s = ?s" by simp
      from pos [of ?s] s have "0 \<le> mul_op A (div_op A ?s ?o) 100" by simp
      with True m show ?thesis
        by (simp add: globalStats_def computeStats_reference_def Let_def clamp_nonneg toFixed_zero)
    next
      case s: False
      then have m: "max 0 ?s = 0" by simp
      from neg [of ?s] s have le: "mul_op A (div_op A ?s ?o) 100 \<le> 0" by simp
      from pos [of 0] neg [of 0] have z: "mul_op A (div_op A 0 ?o) 100 = 0" by simp
      from True m le z show ?thesis
        by (simp add: globalStats_def computeStats_reference_def Let_def toFixed_zero)
    qed
  qed
qed

lemma globalStats_nonneg: "0 \<le> saved (globalStats A imgs) \<and> 0 \<le> ratio (globalStats A imgs)"
  by (simp add: globalStats_def Let_def toFixed_nonneg)

lemma globalStats_no_original:
  "originalTotalKB (computeStats_reference A imgs) \<le> 0 \<Longrightarrow> ratio (globalStats A imgs) = 0"
  by (simp add: globalStats_def computeStats_reference_def Let_def)

lemma foldl_zero:
  "add_op A 0 0 = 0 \<Longrightarrow> \<forall>img \<in> set imgs. g img = 0 \<Longrightarrow>
   foldl (\<lambda>sum img. add_op A sum (g img)) 0 imgs = 0"
proof (induction imgs)
  case Nil
  show ?case by simp
next
  case (Cons img imgs)
  then have g: "g img = 0" and rest: "\<forall>img \<in> set imgs. g img = 0" by simp_all
  with Cons.IH [OF Cons.prems(1) rest] Cons.prems(1) show ?case by simp
qed

lemma globalStats_zero_size:
  assumes "add_op A 0 0 = 0" and "\<forall>img \<in> set imgs. originalSize img = 0"
  shows "ratio (globalStats A imgs) = 0"
proof -
  from assms have "sum_in A originalSize imgs = 0"
    unfolding sum_in_def by (rule foldl_zero)
  then show ?thesis by (simp add: globalStats_def Let_def)
qed

lemma globalStats_done:
  "allCompressed (globalStats A imgs) \<longleftrightarrow>
   imgs \<noteq> [] \<and> (\<forall>img \<in> set imgs. status_of img = Ready \<or> status_of img = Errored)"
  by (auto simp: globalStats_def Let_def list_all_iff done_iff_status)

subsection \<open>The status along the life of a record\<close>

lemma member_update_image:
  assumes "r \<in> set (update_image i f prev)" and "img_id r = i"
    and "\<And>img. img_id (f img) = img_id img"
  shows "\<exists>img \<in> set prev. r = f img"
  using assms by (auto simp: update_image_def split: if_splits)

lemma status_of_new_image: "status_of (new_image ident f s) = Loading"
  by (simp add: status_of_def new_image_def)

lemma status_after_start:
  assumes "r \<in> set (compressImage_start i prev)" and "img_id r = i" and "originalSrc r \<noteq> []"
  shows "status_of r = Compressing"
proof -
  from member_update_image [OF assms(1) [unfolded compressImage_start_def] assms(2)]
  obtain img where "r = img\<lparr>isCompressing := True, error := None\<rparr>" by auto
  with assms(3) show ?thesis by (simp add: status_of_def)
qed

lemma status_after_reader_onload:
  assumes "r \<in> set (reader_onload i src prev)" and "img_id r = i" and "src \<noteq> []"
  shows "status_of r = Compressing"
proof -
  from member_update_image [OF assms(1) [unfolded reader_onload_def compressImage_start_def] assms(2)]
  obtain mid where mid: "mid \<in> set (update_image i (\<lambda>img. img\<lparr>originalSrc := src, isCompressing := True\<rparr>) prev)"
      and r: "r = mid\<lparr>isCompressing := True, error := None\<rparr>" by auto
  from r assms(2) have "img_id mid = i" by simp
  from member_update_image [OF mid this]
  obtain img where "mid = img\<lparr>originalSrc := src, isCompressing := True\<rparr>" by auto
  with r assms(3) show ?thesis by (simp add: status_of_def)
qed

lemma status_after_success:
  assumes "r \<in> set (compressImage_onload i (ToDataURL u) prev)" and "img_id r = i" and "u \<noteq> []"
    and "error r = None"
  shows "status_of r = Ready"
proof -
  from member_update_image [OF assms(1) [unfolded compressImage_onload.simps Let_def] assms(2)]
  obtain img where "r = img\<lparr>compressedSrc := Some u, compressedSize := getFileSizeFromDataURL u,
      isCompressing := False\<rparr>" by auto
  with assms(3,4) show ?thesis by (simp add: status_of_def)
qed

lemma status_after_failure:
  assumes "r \<in> set (compressImage_onload i NoContext prev) \<or> r \<in> set (compressImage_onerror i prev) \<or>
     r \<in> set (reader_onerror i prev)" and "img_id r = i"
  shows "status_of r = Errored"
proof -
  from assms(1) consider
      "r \<in> set (update_image i (\<lambda>img. img\<lparr>isCompressing := False, error := Some ''Canvas error.''\<rparr>) prev)"
    | "r \<in> set (update_image i (\<lambda>i. i\<lparr>isCompressing := False, error := Some ''Image load failed.''\<rparr>) prev)"
    | "r \<in> set (update_image i (\<lambda>img. img\<lparr>isCompressing := False, error := Some ''Read error.''\<rparr>) prev)"
    by (auto simp: compressImage_onerror_def reader_onerror_def)
  then show ?thesis
  proof cases
    case 1
    from member_update_image [OF 1 assms(2)] show ?thesis by (auto simp: status_of_def)
  next
    case 2
    from member_update_image [OF 2 assms(2)] show ?thesis by (auto simp: status_of_def)
  next
    case 3
    from member_update_image [OF 3 assms(2)] show ?thesis by (auto simp: status_of_def)
  qed
qed

subsection \<open>Worked examples in doubles\<close>

lemma to_double_quarter: "to_double (1 / 4) = 1 / 4"
  by (simp add: to_double_eval [where k = 54] round_even_def)

lemma to_double_7_4: "to_double (7 / 4) = 7 / 4"
  by (simp add: to_double_eval [where k = 52] round_even_def)

lemma to_double_7_8: "to_double (7 / 8) = 7 / 8"
  by (simp add: to_double_eval [where k = 53] round_even_def)

lemma to_double_175_2: "to_double (175 / 2) = 175 / 2"
  by (simp add: to_double_eval [where k = 46] round_even_def)

lemma to_double_1: "to_double 1 = 1"
  by (simp add: to_double_eval [where k = 52] round_even_def)

lemma to_double_100: "to_double 100 = 100"
  by (simp add: to_double_eval [where k = 46] round_even_def)

lemma size_of_payload_256: "getFileSizeFromDataURL payload_256 = 1 / 4"
  by (simp add: payload_256_def getFileSizeFromDataURL_def getFileSizeFromDataURL_try_def atob_def
      b64_digits_def is_ascii_whitespace_def strip_padding_def b64_value_def toFixed_def)

lemma payload_256_not_empty: "payload_256 \<noteq> []"
  by (simp add: payload_256_def)

lemma example_ingest_wide:
  "example_ingest ''wide.png'' 2048 = [new_image ''u'' (example_file ''wide.png'' ''image/png'' 2048) 2]"
  by (simp add: example_ingest_def handleFileProcessing_in_def ieee_def file_sizeKB_in_def toFixed_def
      MAX_TOTAL_SIZE_MB_def Let_def example_file_simps initial_def
      to_double_eval [where k = 37] to_double_eval [where k = 51] round_even_def)

lemma example_ingest_small:
  "example_ingest ''small.png'' 150 =
     [new_image ''u'' (example_file ''small.png'' ''image/png'' 150) (5404319552844595 / 2 ^ 55)]"
  by (simp add: example_ingest_def handleFileProcessing_in_def ieee_def file_sizeKB_in_def toFixed_def
      MAX_TOTAL_SIZE_MB_def Let_def example_file_simps initial_def
      to_double_eval [where k = 37] to_double_eval [where k = 55] round_even_def)

lemma example_ingest_empty:
  "example_ingest ''empty.png'' 0 = [new_image ''u'' (example_file ''empty.png'' ''image/png'' 0) 0]"
  by (simp add: example_ingest_def handleFileProcessing_in_def ieee_def file_sizeKB_in_def toFixed_def
      MAX_TOTAL_SIZE_MB_def Let_def example_file_simps initial_def to_double_zero
      to_double_eval [where k = 37] round_even_def)

lemma example_read:
  "reader_onload ''u'' ''data:image/png;base64,AAAA'' (example_ingest ''wide.png'' 2048) =
     [\<lparr>img_id = ''u'', img_file = example_file ''wide.png'' ''image/png'' 2048,
       originalSize = 2, originalSrc = ''data:image/png;base64,AAAA'',
       compressedSrc = None, compressedSize = 0, isCompressing = True, error = None\<rparr>]"
  by (simp add: example_ingest_wide new_image_def reader_onload_def compressImage_start_def
      update_image_def)

lemma example_compressed_eq:
  "example_compressed =
     [\<lparr>img_id = ''u'', img_file = example_file ''wide.png'' ''image/png'' 2048,
       originalSize = 2, originalSrc = ''data:image/png;base64,AAAA'',
       compressedSrc = Some payload_256, compressedSize = 1 / 4,
       isCompressing = False, error = None\<rparr>]"
  by (simp add: example_compressed_def example_read update_image_def size_of_payload_256)

lemma stats_example_compressed:
  "globalStats ieee example_compressed =
     \<lparr>originalTotal = 2, compressedTotal = 3 / 10, saved = 18 / 10, ratio = 875 / 10,
      allCompressed = True\<rparr>"
  by (simp add: example_compressed_eq globalStats_def sum_in_def ieee_def Let_def toFixed_def
      payload_256_not_empty to_double_2 to_double_quarter to_double_7_4 to_double_7_8 to_double_175_2)

lemma reference_example_compressed:
  "computeStats_reference ieee example_compressed =
     \<lparr>originalTotalKB = 2, compressedTotalKB = 1 / 4, savedKB = 7 / 4, reductionPercent = 175 / 2,
      allDone = True\<rparr>"
  by (simp add: example_compressed_eq computeStats_reference_def sum_in_def ieee_def Let_def
      status_of_def payload_256_not_empty to_double_2 to_double_quarter to_double_7_4 to_double_7_8
      to_double_175_2)

lemma reference_example_small:
  "computeStats_reference ieee (example_ingest ''small.png'' 150) =
     \<lparr>originalTotalKB = 5404319552844595 / 2 ^ 55, compressedTotalKB = 0,
      savedKB = 5404319552844595 / 2 ^ 55, reductionPercent = 100, allDone = False\<rparr>"
  by (simp add: example_ingest_small computeStats_reference_def sum_in_def ieee_def Let_def
      new_image_def status_of_def to_double_zero to_double_1 to_double_100
      to_double_eval [where k = 55] round_even_def)

lemma example_failed:
  "compressImage_onerror ''u'' example_compressed =
     [\<lparr>img_id = ''u'', img_file = example_file ''wide.png'' ''image/png'' 2048,
       originalSize = 2, originalSrc = ''data:image/png;base64,AAAA'',
       compressedSrc = Some payload_256, compressedSize = 1 / 4,
       isCompressing = False, error = Some ''Image load failed.''\<rparr>]"
  by (simp add: example_compressed_eq compressImage_onerror_def update_image_def)

lemma example_restarted:
  "compressImage_start ''u'' (compressImage_onerror ''u'' example_compressed) =
     [\<lparr>img_id = ''u'', img_file = example_file ''wide.png'' ''image/png'' 2048,
       originalSize = 2, originalSrc = ''data:image/png;base64,AAAA'',
       compressedSrc = Some payload_256, compressedSize = 1 / 4,
       isCompressing = True, error = None\<rparr>]"
  by (simp add: example_failed compressImage_start_def update_image_def)

text \<open>
  Claim C4, amended. The numbers of \<open>globalStats\<close> are the numbers of the reference
  definition, computed in the arithmetic of the program and rendered with one decimal: the
  two totals, the saving \<open>max(0, originalTotalKB - compressedTotalKB)\<close> and the reduction
  \<open>savedKB / originalTotalKB * 100\<close>, which is \<open>0\<close> when the original total is not positive.
  This holds in every arithmetic in which a quotient by a positive number, taken times 100,
  keeps the sign of the dividend, as it does in doubles. The saving is never negative, and
  the reduction is \<open>0\<close> for the empty batch and for a batch of files of size zero. The flag
  \<open>allCompressed\<close> holds iff the batch is not empty and every record is \<open>Ready\<close> or
  \<open>Errored\<close>, where the status of a record follows its life in the program: \<open>Loading\<close>
  when created, \<open>Compressing\<close> once its reader has delivered the preview or a compression
  is started again, \<open>Ready\<close> when a compression delivers a data URL and no error is stored,
  \<open>Errored\<close> when the canvas, the image load or the reader fails.
\<close>

theorem globalStats_matches_reference:
  "sign_preserving A \<Longrightarrow>
   originalTotal (globalStats A imgs) = toFixed 1 (originalTotalKB (computeStats_reference A imgs)) \<and>
   compressedTotal (globalStats A imgs) = toFixed 1 (compressedTotalKB (computeStats_reference A imgs)) \<and>
   saved (globalStats A imgs) = toFixed 1 (savedKB (computeStats_reference A imgs)) \<and>
   ratio (globalStats A imgs) = toFixed 1 (reductionPercent (computeStats_reference A imgs)) \<and>
   allCompressed (globalStats A imgs) = allDone (computeStats_reference A imgs) \<and>
   0 \<le> saved (globalStats A imgs) \<and>
   ratio (globalStats A []) = 0 \<and>
   (originalTotalKB (computeStats_reference A imgs) \<le> 0 \<longrightarrow> ratio (globalStats A imgs) = 0) \<and>
   (add_op A 0 0 = 0 \<and> (\<forall>img \<in> set imgs. originalSize img = 0) \<longrightarrow> ratio (globalStats A imgs) = 0) \<and>
   (allCompressed (globalStats A imgs) \<longleftrightarrow>
      imgs \<noteq> [] \<and> (\<forall>img \<in> set imgs. status_of img = Ready \<or> status_of img = Errored)) \<and>
   status_of (new_image ident f s) = Loading \<and>
   (r \<in> set (reader_onload i src prev) \<and> img_id r = i \<and> src \<noteq> [] \<longrightarrow> status_of r = Compressing) \<and>
   (r \<in> set (compressImage_start i prev) \<and> img_id r = i \<and> originalSrc r \<noteq> [] \<longrightarrow>
      status_of r = Compressing) \<and>
   (r \<in> set (compressImage_onload i (ToDataURL u) prev) \<and> img_id r = i \<and> u \<noteq> [] \<and> error r = None \<longrightarrow>
      status_of r = Ready) \<and>
   ((r \<in> set (compressImage_onload i NoContext prev) \<or> r \<in> set (compressImage_onerror i prev) \<or>
     r \<in> set (reader_onerror i prev)) \<and> img_id r = i \<longrightarrow> status_of r = Errored)"
proof -
  assume sp: "sign_preserving A"
  have o: "originalTotal (globalStats A imgs) = toFixed 1 (originalTotalKB (computeStats_reference A imgs))"
    by (simp add: globalStats_def computeStats_reference_def Let_def)
  have c: "compressedTotal (globalStats A imgs) = toFixed 1 (compressedTotalKB (computeStats_reference A imgs))"
    by (simp add: globalStats_def computeStats_reference_def Let_def)
  have n: "0 \<le> saved (globalStats A imgs)"
    using globalStats_nonneg [of A imgs] by (rule conjunct1)
  have e: "ratio (globalStats A []) = 0"
    by (simp add: globalStats_def sum_in_def Let_def)
  have z1: "originalTotalKB (computeStats_reference A imgs) \<le> 0 \<longrightarrow> ratio (globalStats A imgs) = 0"
    using globalStats_no_original [of A imgs] by (rule impI)
  have z2: "add_op A 0 0 = 0 \<and> (\<forall>img \<in> set imgs. originalSize img = 0) \<longrightarrow> ratio (globalStats A imgs) = 0"
    using globalStats_zero_size [of A imgs] by (intro impI, elim conjE)
  have l1: "r \<in> set (reader_onload i src prev) \<and> img_id r = i \<and> src \<noteq> [] \<longrightarrow> status_of r = Compressing"
    using status_after_reader_onload [of r i src prev] by (intro impI, elim conjE)
  have l2: "r \<in> set (compressImage_start i prev) \<and> img_id r = i \<and> originalSrc r \<noteq> [] \<longrightarrow>
      status_of r = Compressing"
    using status_after_start [of r i prev] by (intro impI, elim conjE)
  have l3: "r \<in> set (compressImage_onload i (ToDataURL u) prev) \<and> img_id r = i \<and> u \<noteq> [] \<and> error r = None \<longrightarrow>
      status_of r = Ready"
    using status_after_success [of r i u prev] by (intro impI, elim conjE)
  have l4: "(r \<in> set (compressImage_onload i NoContext prev) \<or> r \<in> set (compressImage_onerror i prev) \<or>
     r \<in> set (reader_onerror i prev)) \<and> img_id r = i \<longrightarrow> status_of r = Errored"
    using status_after_failure [of r i prev] by (intro impI, elim conjE)
  show ?thesis
    by (intro conjI o c globalStats_saved globalStats_ratio [OF sp] globalStats_allCompressed n e z1 z2
        globalStats_done status_of_new_image l1 l2 l3 l4)
qed

theorem globalStats_matches_reference_witness:
  "sign_preserving ieee \<and>
   originalTotal (globalStats ieee example_compressed) = 2 \<and>
   compressedTotal (globalStats ieee example_compressed) = 3 / 10 \<and>
   saved (globalStats ieee example_compressed) = 18 / 10 \<and>
   ratio (globalStats ieee example_compressed) = 875 / 10 \<and>
   allCompressed (globalStats ieee example_compressed) \<and>
   0 \<le> saved (globalStats ieee example_compressed) \<and>
   originalTotal (globalStats ieee (example_ingest ''small.png'' 150)) = 1 / 10 \<and>
   saved (globalStats ieee (example_ingest ''small.png'' 150)) = 1 / 10 \<and>
   ratio (globalStats ieee (example_ingest ''small.png'' 150)) = 100 \<and>
   \<not> allCompressed (globalStats ieee (example_ingest ''small.png'' 150)) \<and>
   ratio (globalStats ieee []) = 0 \<and>
   add_op ieee 0 0 = 0 \<and>
   list_all (\<lambda>img. originalSize img = 0) (example_ingest ''empty.png'' 0) \<and>
   originalTotalKB (computeStats_reference ieee (example_ingest ''empty.png'' 0)) \<le> 0 \<and>
   ratio (globalStats ieee (example_ingest ''empty.png'' 0)) = 0 \<and>
   example_compressed \<noteq> [] \<and>
   list_all (\<lambda>img. status_of img = Ready \<or> status_of img = Errored) example_compressed \<and>
   status_of (hd (example_ingest ''wide.png'' 2048)) = Loading \<and>
   hd (reader_onload ''u'' ''data:image/png;base64,AAAA'' (example_ingest ''wide.png'' 2048))
     \<in> set (reader_onload ''u'' ''data:image/png;base64,AAAA'' (example_ingest ''wide.png'' 2048)) \<and>
   status_of (hd (reader_onload ''u'' ''data:image/png;base64,AAAA'' (example_ingest ''wide.png'' 2048))) =
     Compressing \<and>
   hd example_compressed \<in> set example_compressed \<and> img_id (hd example_compressed) = ''u'' \<and>
   payload_256 \<noteq> [] \<and> error (hd example_compressed) = None \<and>
   status_of (hd example_compressed) = Ready \<and>
   hd (compressImage_onerror ''u'' example_compressed) \<in> set (compressImage_onerror ''u'' example_compressed) \<and>
   status_of (hd (compressImage_onerror ''u'' example_compressed)) = Errored \<and>
   hd (compressImage_start ''u'' (compressImage_onerror ''u'' example_compressed))
     \<in> set (compressImage_start ''u'' (compressImage_onerror ''u'' example_compressed)) \<and>
   originalSrc (hd (compressImage_start ''u'' (compressImage_onerror ''u'' example_compressed))) \<noteq> [] \<and>
   status_of (hd (compressImage_start ''u'' (compressImage_onerror ''u'' example_compressed))) = Compressing"
proof -
  note t = globalStats_matches_reference [OF sign_preserving_ieee]
  let ?read = "reader_onload ''u'' ''data:image/png;base64,AAAA'' (example_ingest ''wide.png'' 2048)"
  let ?failed = "compressImage_onerror ''u'' example_compressed"
  let ?again = "compressImage_start ''u'' ?failed"
  from t [of example_compressed] have
    "originalTotal (globalStats ieee example_compressed) =
       toFixed 1 (originalTotalKB (computeStats_reference ieee example_compressed)) \<and>
     compressedTotal (globalStats ieee example_compressed) =
       toFixed 1 (compressedTotalKB (computeStats_reference ieee example_compressed)) \<and>
     saved (globalStats ieee example_compressed) =
       toFixed 1 (savedKB (computeStats_reference ieee example_compressed)) \<and>
     ratio (globalStats ieee example_compressed) =
       toFixed 1 (reductionPercent (computeStats_reference ieee example_compressed)) \<and>
     allCompressed (globalStats ieee example_compressed) =
       allDone (computeStats_reference ieee example_compressed) \<and>
     0 \<le> saved (globalStats ieee example_compressed)"
    by blast
  then have a: "originalTotal (globalStats ieee example_compressed) = 2 \<and>
     compressedTotal (globalStats ieee example_compressed) = 3 / 10 \<and>
     saved (globalStats ieee example_compressed) = 18 / 10 \<and>
     ratio (globalStats ieee example_compressed) = 875 / 10 \<and>
     allCompressed (globalStats ieee example_compressed) \<and>
     0 \<le> saved (globalStats ieee example_compressed)"
    by (simp add: reference_example_compressed toFixed_def)
  from t [of "example_ingest ''small.png'' 150"] have
    "originalTotal (globalStats ieee (example_ingest ''small.png'' 150)) =
       toFixed 1 (originalTotalKB (computeStats_reference ieee (example_ingest ''small.png'' 150))) \<and>
     saved (globalStats ieee (example_ingest ''small.png'' 150)) =
       toFixed 1 (savedKB (computeStats_reference ieee (example_ingest ''small.png'' 150))) \<and>
     ratio (globalStats ieee (example_ingest ''small.png'' 150)) =
       toFixed 1 (reductionPercent (computeStats_reference ieee (example_ingest ''small.png'' 150))) \<and>
     allCompressed (globalStats ieee (example_ingest ''small.png'' 150)) =
       allDone (computeStats_reference ieee (example_ingest ''small.png'' 150))"
    by blast
  then have b: "originalTotal (globalStats ieee (example_ingest ''small.png'' 150)) = 1 / 10 \<and>
     saved (globalStats ieee (example_ingest ''small.png'' 150)) = 1 / 10 \<and>
     ratio (globalStats ieee (example_ingest ''small.png'' 150)) = 100 \<and>
     \<not> allCompressed (globalStats ieee (example_ingest ''small.png'' 150))"
    by (simp add: reference_example_small toFixed_def)
  from t have c: "ratio (globalStats ieee []) = 0" by blast
  have z1: "add_op ieee 0 0 = 0" by (simp add: ieee_def to_double_zero)
  have z2: "list_all (\<lambda>img. originalSize img = 0) (example_ingest ''empty.png'' 0)"
    by (simp add: example_ingest_empty new_image_def)
  then have z2': "\<forall>img \<in> set (example_ingest ''empty.png'' 0). originalSize img = 0"
    by (simp add: list_all_iff)
  have z3: "originalTotalKB (computeStats_reference ieee (example_ingest ''empty.png'' 0)) \<le> 0"
    by (simp add: example_ingest_empty computeStats_reference_def sum_in_def ieee_def Let_def
        new_image_def to_double_zero)
  from t [of "example_ingest ''empty.png'' 0"] z1 z2'
  have z: "ratio (globalStats ieee (example_ingest ''empty.png'' 0)) = 0" by blast
  from t [of example_compressed] a
  have "example_compressed \<noteq> [] \<and>
     (\<forall>img \<in> set example_compressed. status_of img = Ready \<or> status_of img = Errored)"
    by blast
  then have d: "example_compressed \<noteq> [] \<and>
     list_all (\<lambda>img. status_of img = Ready \<or> status_of img = Errored) example_compressed"
    by (simp add: list_all_iff)
  from t [where ident = "''u''" and f = "example_file ''wide.png'' ''image/png'' 2048" and s = 2]
  have l0: "status_of (hd (example_ingest ''wide.png'' 2048)) = Loading"
    by (simp add: example_ingest_wide)
  have l1: "hd ?read \<in> set ?read" "img_id (hd ?read) = ''u''" "''data:image/png;base64,AAAA'' \<noteq> []"
    by (simp_all add: example_read)
  from t [where r = "hd ?read" and i = "''u''" and src = "''data:image/png;base64,AAAA''"
      and prev = "example_ingest ''wide.png'' 2048"] l1
  have l1': "status_of (hd ?read) = Compressing" by blast
  have l2: "hd example_compressed \<in> set example_compressed"
      "img_id (hd example_compressed) = ''u''" "payload_256 \<noteq> []" "error (hd example_compressed) = None"
    by (simp_all add: example_compressed_eq payload_256_not_empty)
  from l2(1) have l2a: "hd example_compressed \<in> set (compressImage_onload ''u'' (ToDataURL payload_256) ?read)"
    by (simp only: example_compressed_def)
  from t [where r = "hd example_compressed" and i = "''u''" and u = payload_256 and prev = ?read] l2a l2
  have l2': "status_of (hd example_compressed) = Ready" by blast
  have l3: "hd ?failed \<in> set ?failed" "img_id (hd ?failed) = ''u''"
    by (simp_all add: example_failed)
  from t [where r = "hd ?failed" and i = "''u''" and prev = example_compressed] l3
  have l3': "status_of (hd ?failed) = Errored" by blast
  have l4: "hd ?again \<in> set ?again" "img_id (hd ?again) = ''u''" "originalSrc (hd ?again) \<noteq> []"
    by (simp_all add: example_restarted)
  from t [where r = "hd ?again" and i = "''u''" and prev = ?failed] l4
  have l4': "status_of (hd ?again) = Compressing" by blast
  from sign_preserving_ieee a b c z1 z2 z3 z d l0 l1(1) l1' l2 l2' l3(1) l3' l4(1,3) l4'
  show ?thesis by blast
qed

text \<open>
  The claim as stated fails for one file of 2 KB compressed to 256 bytes: the totals are 2
  and 0.25 and the reference saving is 1.75, the program shows \<open>2.0\<close>, \<open>0.3\<close> and \<open>1.8\<close>,
  and \<open>1.8\<close> is neither 1.75 nor the difference 1.7 of the totals shown.
\<close>

theorem saved_is_rounded:
  "savedKB (computeStats_reference ieee example_compressed) = 7 / 4 \<and>
   saved (globalStats ieee example_compressed) = 18 / 10 \<and>
   max 0 (originalTotal (globalStats ieee example_compressed) -
          compressedTotal (globalStats ieee example_compressed)) = 17 / 10"
  by (simp add: stats_example_compressed reference_example_compressed)

text \<open>
  The arithmetic matters for the rendering. A file of 150 bytes is 0.15 KB; the double
  nearest to 0.15 lies below it and is rendered \<open>0.1\<close>, the exact number is rendered \<open>0.2\<close>.
\<close>

lemma rendering_in_doubles:
  "originalTotal (globalStats ieee (example_ingest ''small.png'' 150)) = 1 / 10 \<and>
   saved (globalStats ieee (example_ingest ''small.png'' 150)) = 1 / 10 \<and>
   originalTotal (globalStats exact (images (fst (handleFileProcessing (\<lambda>k. ''u'')
     [example_file ''small.png'' ''image/png'' 150] initial)))) = 2 / 10 \<and>
   saved (globalStats exact (images (fst (handleFileProcessing (\<lambda>k. ''u'')
     [example_file ''small.png'' ''image/png'' 150] initial)))) = 2 / 10"
  by (simp add: example_ingest_small handleFileProcessing_def sum_originalSize_def file_sizeKB_def
      MAX_TOTAL_SIZE_MB_def example_file_simps initial_def
      globalStats_def sum_in_def ieee_def exact_def new_image_def Let_def toFixed_def to_double_zero
      to_double_eval [where k = 55] round_even_def)

end
